theory Spec2Isabelle
  imports Complex_Main "HOL-Library.Sublist"
begin

section \<open>Python strings\<close>

text \<open>
  A Python \<open>str\<close> is modelled as a \<open>string\<close>, a character standing for the code
  point of its number (0 to 255). Whitespace and word characters are those of Python on
  that whole range. The case mappings \<open>upper\<close> and \<open>lower\<close> are those of Python on
  ASCII; a character from 128 on is left unchanged by them.
\<close>

definition ascii_lowercase :: string where
  "ascii_lowercase = ''abcdefghijklmnopqrstuvwxyz''"

definition ascii_uppercase :: string where
  "ascii_uppercase = ''ABCDEFGHIJKLMNOPQRSTUVWXYZ''"

definition digits :: string where
  "digits = ''0123456789''"

definition is_lower :: "char \<Rightarrow> bool" where
  "is_lower c = (c \<in> set ascii_lowercase)"

definition is_upper :: "char \<Rightarrow> bool" where
  "is_upper c = (c \<in> set ascii_uppercase)"

definition is_digit :: "char \<Rightarrow> bool" where
  "is_digit c = (c \<in> set digits)"

definition to_upper :: "char \<Rightarrow> char" where
  "to_upper c = (case map_of (zip ascii_lowercase ascii_uppercase) c of
                   Some u \<Rightarrow> u | None \<Rightarrow> c)"

definition to_lower :: "char \<Rightarrow> char" where
  "to_lower c = (case map_of (zip ascii_uppercase ascii_lowercase) c of
                   Some l \<Rightarrow> l | None \<Rightarrow> c)"

text \<open>\<open>str.upper()\<close> and \<open>str.lower()\<close>.\<close>

definition upper :: "string \<Rightarrow> string" where
  "upper s = map to_upper s"

definition lower :: "string \<Rightarrow> string" where
  "lower s = map to_lower s"

text \<open>
  The characters for which \<open>str.isspace()\<close> holds, which are also the ones \<open>\s\<close>
  matches: tab, line feed, vertical tab, form feed, carriage return, the four
  separators 0x1C to 0x1F, the space, the next-line control 0x85 and the no-break
  space 0xA0.
\<close>

definition whitespace :: string where
  "whitespace = [CHR 0x09, CHR 0x0A, CHR 0x0B, CHR 0x0C, CHR 0x0D,
                 CHR 0x1C, CHR 0x1D, CHR 0x1E, CHR 0x1F, CHR '' '',
                 CHR 0x85, CHR 0xA0]"

definition is_space :: "char \<Rightarrow> bool" where
  "is_space c = (c \<in> set whitespace)"

text \<open>\<open>str.strip()\<close>.\<close>

definition strip :: "string \<Rightarrow> string" where
  "strip s = rev (dropWhile is_space (rev (dropWhile is_space s)))"

text \<open>
  \<open>str.split()\<close> without arguments: the maximal runs of non-whitespace characters.
  The first argument holds the word being read, reversed.
\<close>

fun split_ws_aux :: "string \<Rightarrow> string \<Rightarrow> string list" where
  "split_ws_aux w [] = (if w = [] then [] else [rev w])"
| "split_ws_aux w (c # cs) =
     (if is_space c
      then (if w = [] then split_ws_aux [] cs else rev w # split_ws_aux [] cs)
      else split_ws_aux (c # w) cs)"

definition split_ws :: "string \<Rightarrow> string list" where
  "split_ws s = split_ws_aux [] s"

text \<open>\<open>sep.join(parts)\<close>.\<close>

fun join_str :: "string \<Rightarrow> string list \<Rightarrow> string" where
  "join_str sep [] = []"
| "join_str sep [w] = w"
| "join_str sep (w # v # ws) = w @ sep @ join_str sep (v # ws)"

text \<open>
  \<open>s.replace(old, new)\<close> for a non-empty \<open>old\<close>: the occurrences of \<open>old\<close> are found
  from the left, without overlap. (Python's insertion of \<open>new\<close> between all characters
  for an empty \<open>old\<close> is not modelled; no call of the program passes one.)
\<close>

function replace_str :: "string \<Rightarrow> string \<Rightarrow> string \<Rightarrow> string" where
  "replace_str old new [] = []"
| "replace_str old new (c # cs) =
     (if old \<noteq> [] \<and> prefix old (c # cs)
      then new @ replace_str old new (drop (length old) (c # cs))
      else c # replace_str old new cs)"
  by pat_completeness auto
termination
  by (relation "measure (\<lambda>(old, new, s). length s)") auto

text \<open>
  \<open>s.split(sep)\<close> for a separator of one character: the pieces between the
  occurrences, empty pieces kept.
\<close>

fun split_chr :: "char \<Rightarrow> string \<Rightarrow> string list" where
  "split_chr sep [] = [[]]"
| "split_chr sep (c # cs) =
     (case split_chr sep cs of
        [] \<Rightarrow> [[c]]
      | p # ps \<Rightarrow> if c = sep then [] # p # ps else (c # p) # ps)"

text \<open>
  \<open>s.rfind(sep)\<close>: the highest index at which \<open>sep\<close> occurs, and
  \<open>s.rsplit(sep, maxsplit)\<close>, which cuts at the rightmost occurrence, then at the
  rightmost one in what is left of it, at most \<open>maxsplit\<close> times.
\<close>

definition rfind :: "string \<Rightarrow> string \<Rightarrow> nat option" where
  "rfind sep s =
     (case filter (\<lambda>i. prefix sep (drop i s)) (rev [0..<Suc (length s)]) of
        [] \<Rightarrow> None
      | i # _ \<Rightarrow> Some i)"

fun rsplit :: "string \<Rightarrow> nat \<Rightarrow> string \<Rightarrow> string list" where
  "rsplit sep 0 s = [s]"
| "rsplit sep (Suc n) s =
     (case rfind sep s of
        None \<Rightarrow> [s]
      | Some i \<Rightarrow> rsplit sep n (take i s) @ [drop (i + length sep) s])"

section \<open>Table cells\<close>

text \<open>
  A field of a provider row is a string, \<open>None\<close> or the float NaN (a missing value of
  the data frame). \<open>isna\<close> is \<open>pd.isna\<close>, \<open>py_str\<close> is \<open>str(...)\<close> and \<open>truthy\<close> is
  the truth value Python gives the cell. Numeric cells are not modelled.
\<close>

datatype cell = Str string | NoneVal | NaN

fun isna :: "cell \<Rightarrow> bool" where
  "isna (Str s) = False"
| "isna NoneVal = True"
| "isna NaN = True"

fun py_str :: "cell \<Rightarrow> string" where
  "py_str (Str s) = s"
| "py_str NoneVal = ''None''"
| "py_str NaN = ''nan''"

fun truthy :: "cell \<Rightarrow> bool" where
  "truthy (Str s) = (s \<noteq> [])"
| "truthy NoneVal = False"
| "truthy NaN = True"

section \<open>Key normalizer (process_admin_emails.py)\<close>

text \<open>The replacement table of \<open>normalize_org_name\<close>, in the order the dict lists it.\<close>

definition replacements :: "(string \<times> string) list" where
  "replacements =
     [('' INC.'', '' INC''),
      ('' INC,'', '' INC''),
      ('' LLC.'', '' LLC''),
      ('' LLC,'', '' LLC''),
      ('' P.C.'', '' PC''),
      ('' P.C,'', '' PC''),
      ('' P.A.'', '' PA''),
      ('' P.A,'', '' PA''),
      ('' L.L.C.'', '' LLC''),
      ('' L.L.C'', '' LLC''),
      ('' L.P.'', '' LP''),
      ('' PLLC.'', '' PLLC''),
      ('','', ''''),
      (''.'', '''')]"

definition apply_replacements :: "(string \<times> string) list \<Rightarrow> string \<Rightarrow> string" where
  "apply_replacements rs name = foldl (\<lambda>n (old, new). replace_str old new n) name rs"

definition normalize_org_name :: "cell \<Rightarrow> string" where
  "normalize_org_name name =
     (if isna name then ''''
      else join_str '' '' (split_ws (apply_replacements replacements
                                       (strip (upper (py_str name))))))"

text \<open>The expression \<open>str(x).upper().strip() if not pd.isna(x) else ""\<close> of
  \<open>create_facility_key\<close>, used for the city and for the state.\<close>

definition upper_strip :: "cell \<Rightarrow> string" where
  "upper_strip x = (if isna x then '''' else strip (upper (py_str x)))"

definition create_facility_key :: "cell \<Rightarrow> cell \<Rightarrow> cell \<Rightarrow> string option" where
  "create_facility_key org_name city state =
     (let org = normalize_org_name org_name;
          city' = upper_strip city;
          state' = upper_strip state
      in if org \<noteq> [] \<and> city' \<noteq> [] \<and> state' \<noteq> []
         then Some (org @ '', '' @ city' @ '', '' @ state')
         else None)"

section \<open>Email generator (both scripts hold the same function)\<close>

text \<open>\<open>re.sub(r'[^a-z]', '', s)\<close> keeps the characters a to z.\<close>

definition clean_name :: "cell \<Rightarrow> string" where
  "clean_name name = filter is_lower (lower (strip (py_str name)))"

definition generate_email :: "cell \<Rightarrow> cell \<Rightarrow> string \<Rightarrow> string \<Rightarrow> string option" where
  "generate_email first_name last_name email_format domain =
     (if \<not> truthy first_name \<or> \<not> truthy last_name \<or> isna first_name \<or> isna last_name
      then None
      else
        let first = clean_name first_name;
            last = clean_name last_name
        in if first = [] \<or> last = [] then None
           else
             let first_initial = take 1 first;
                 last_initial = take 1 last
             in if email_format = ''[first].[last]''
                  then Some (first @ ''.'' @ last @ ''@'' @ domain)
                else if email_format = ''[first_initial][last]''
                  then Some (first_initial @ last @ ''@'' @ domain)
                else if email_format = ''[first][last_initial]''
                  then Some (first @ last_initial @ ''@'' @ domain)
                else if email_format = ''[first]''
                  then Some (first @ ''@'' @ domain)
                else if email_format = ''[last]''
                  then Some (last @ ''@'' @ domain)
                else if email_format = ''[first]_[last]''
                  then Some (first @ ''_'' @ last @ ''@'' @ domain)
                else if email_format = ''[first]-[last]''
                  then Some (first @ ''-'' @ last @ ''@'' @ domain)
                else if email_format = ''[first][last]''
                  then Some (first @ last @ ''@'' @ domain)
                else None)"

text \<open>The template tags that the chain of tests in \<open>generate_email\<close> recognises.\<close>

definition format_templates :: "string list" where
  "format_templates = [''[first]'', ''[last]'', ''[first].[last]'', ''[first]_[last]'',
     ''[first]-[last]'', ''[first][last]'', ''[first_initial][last]'', ''[first][last_initial]'']"

text \<open>
  Following the spec's words on name cleaning: the name lowercased, with every
  character that is not a letter stripped.
\<close>

definition lowercase_letters :: "string \<Rightarrow> string" where
  "lowercase_letters s = map to_lower (filter (\<lambda>c. is_lower c \<or> is_upper c) s)"

text \<open>A word of \<open>str.split()\<close>: not empty and free of whitespace.\<close>

definition wordy :: "string \<Rightarrow> bool" where
  "wordy w = (w \<noteq> [] \<and> (\<forall>c\<in>set w. \<not> is_space c))"

section \<open>Facility matcher (process_admin_emails.py)\<close>

text \<open>
  An entry of the format table: the dict the extraction script stores for a facility.
  \<open>source_type\<close> is absent until the prioritizer sets it.
\<close>

record email_format =
  format :: string
  domain :: string
  example :: string
  source :: string
  confidence :: string
  source_type :: "string option"

text \<open>
  The format table \<open>email_formats\<close> is a dict from facility key to entry. It is an
  association list here, because \<open>__init__\<close> walks its keys in order; a lookup is
  \<open>map_of\<close>.
\<close>

type_synonym format_table = "(string \<times> email_format) list"

record candidate =
  key :: string
  org_name :: string

datatype error = KeyError

text \<open>
  \<open>FacilityMatcher.__init__\<close>: every key that \<open>rsplit(', ', 2)\<close> cuts in three parts
  is appended to the bucket of its \<open>"city, state"\<close>.
\<close>

definition add_facility :: "(string \<rightharpoonup> candidate list) \<Rightarrow> string \<Rightarrow> (string \<rightharpoonup> candidate list)" where
  "add_facility by_location k =
     (case rsplit '', '' 2 k of
        [org, city, state] \<Rightarrow>
          (let location = city @ '', '' @ state;
               bucket = (case by_location location of None \<Rightarrow> [] | Some cs \<Rightarrow> cs)
           in by_location(location \<mapsto> bucket @ [\<lparr>key = k, org_name = org\<rparr>]))
      | _ \<Rightarrow> by_location)"

definition facilities_by_location :: "format_table \<Rightarrow> (string \<rightharpoonup> candidate list)" where
  "facilities_by_location email_formats = foldl add_facility Map.empty (map fst email_formats)"

text \<open>What \<open>__init__\<close> keeps true of the buckets: none is empty, and every candidate's
  key is a key of the table.\<close>

definition buckets_ok :: "string set \<Rightarrow> (string \<rightharpoonup> candidate list) \<Rightarrow> bool" where
  "buckets_ok ks m = (\<forall>loc cs. m loc = Some cs \<longrightarrow> cs \<noteq> [] \<and> (\<forall>c\<in>set cs. key c \<in> ks))"

record match_result =
  matched_key :: string
  match_type :: string
  match_score :: real
  format_info :: email_format

text \<open>
  The similarity of the third tier comes from scikit-learn (\<open>TfidfVectorizer\<close> on
  character 2- and 3-grams, then \<open>cosine_similarity\<close>) and is a parameter of the
  model: \<open>sim q names i\<close> is the cosine similarity between the vector of the query
  \<open>q\<close> and the vector of \<open>names ! i\<close>, both fitted on \<open>q # names\<close>. Scores are real
  numbers; the library's own error on an empty vocabulary is outside the model.
\<close>

type_synonym similarity = "string \<Rightarrow> string list \<Rightarrow> nat \<Rightarrow> real"

text \<open>\<open>np.argmax\<close>: the first index that holds the maximum.\<close>

fun argmax :: "real list \<Rightarrow> nat" where
  "argmax [] = 0"
| "argmax [x] = 0"
| "argmax (x # y # ys) = (let j = argmax (y # ys) in if (y # ys) ! j \<le> x then 0 else Suc j)"

text \<open>\<open>self.email_formats[k]\<close>, a \<open>KeyError\<close> when the key is missing.\<close>

definition lookup :: "format_table \<Rightarrow> string \<Rightarrow> error + email_format" where
  "lookup email_formats k =
     (case map_of email_formats k of None \<Rightarrow> Inl KeyError | Some v \<Rightarrow> Inr v)"

text \<open>Tiers 2 and 3 of \<open>match_facility\<close>: what follows the exact lookup.\<close>

definition match_in_location ::
  "similarity \<Rightarrow> format_table \<Rightarrow> real \<Rightarrow> cell \<Rightarrow> cell \<Rightarrow> cell \<Rightarrow> error + match_result option" where
  "match_in_location sim email_formats threshold org city state =
     (let location = strip (upper (py_str city)) @ '', '' @ strip (upper (py_str state))
      in case facilities_by_location email_formats location of
           None \<Rightarrow> Inr None
         | Some candidates \<Rightarrow>
             (let normalized_org = normalize_org_name org
              in case find (\<lambda>c. normalized_org = org_name c) candidates of
                   Some c \<Rightarrow>
                     (case lookup email_formats (key c) of
                        Inl e \<Rightarrow> Inl e
                      | Inr info \<Rightarrow>
                          Inr (Some \<lparr>matched_key = key c, match_type = ''fuzzy_exact'',
                                     match_score = 1, format_info = info\<rparr>))
                 | None \<Rightarrow>
                     if length candidates = 0 then Inr None
                     else
                       (let candidate_names = map org_name candidates;
                            similarities = map (sim normalized_org candidate_names)
                                               [0..<length candidate_names];
                            best_idx = argmax similarities;
                            best_score = similarities ! best_idx
                        in if threshold \<le> best_score
                           then (let matched_candidate = candidates ! best_idx
                                 in case lookup email_formats (key matched_candidate) of
                                      Inl e \<Rightarrow> Inl e
                                    | Inr info \<Rightarrow>
                                        Inr (Some \<lparr>matched_key = key matched_candidate,
                                                   match_type = ''tfidf'',
                                                   match_score = best_score,
                                                   format_info = info\<rparr>))
                           else Inr None)))"

text \<open>
  \<open>match_facility\<close>. The key of tier 1 may be \<open>None\<close>, which is in no table. The
  matcher object is the table, the threshold and the buckets computed from the table.
\<close>

definition match_facility ::
  "similarity \<Rightarrow> format_table \<Rightarrow> real \<Rightarrow> cell \<Rightarrow> cell \<Rightarrow> cell \<Rightarrow> error + match_result option" where
  "match_facility sim email_formats threshold org city state =
     (case create_facility_key org city state of
        None \<Rightarrow> match_in_location sim email_formats threshold org city state
      | Some exact_key \<Rightarrow>
          (case map_of email_formats exact_key of
             Some info \<Rightarrow>
               Inr (Some \<lparr>matched_key = exact_key, match_type = ''exact'',
                          match_score = 1, format_info = info\<rparr>)
           | None \<Rightarrow> match_in_location sim email_formats threshold org city state))"

section \<open>Annotating one provider record (process_admin_emails.py)\<close>

record admin_row =
  organization_name :: cell
  city_name :: cell
  state_name :: cell
  official_first_name :: cell
  official_last_name :: cell

record annotation =
  idx :: nat
  facility_key :: "string option"
  matched_facility :: "string option"
  match_type :: "string option"
  match_score :: "real option"
  generated_email :: "string option"
  email_format_used :: "string option"
  email_domain :: "string option"

definition process_single_record ::
  "similarity \<Rightarrow> nat \<times> admin_row \<Rightarrow> format_table \<Rightarrow> real \<Rightarrow> error + annotation" where
  "process_single_record sim row_data email_formats threshold =
     (let (i, row) = row_data;
          org = organization_name row;
          city = city_name row;
          state = state_name row;
          first_name = official_first_name row;
          last_name = official_last_name row;
          fkey = create_facility_key org city state;
          result = \<lparr>idx = i, facility_key = fkey, matched_facility = None,
                    match_type = None, match_score = None, generated_email = None,
                    email_format_used = None, email_domain = None\<rparr>
      in if fkey = None then Inr result
         else
           case match_facility sim email_formats threshold org city state of
             Inl e \<Rightarrow> Inl e
           | Inr None \<Rightarrow> Inr result
           | Inr (Some m) \<Rightarrow>
               (let result = result\<lparr>matched_facility := Some (matched_key m),
                                     annotation.match_type := Some (match_result.match_type m),
                                     annotation.match_score := Some (match_result.match_score m)\<rparr>;
                    info = format_info m
                in case generate_email first_name last_name (format info) (domain info) of
                     None \<Rightarrow> Inr result
                   | Some email \<Rightarrow>
                       Inr (result\<lparr>generated_email := Some email,
                                   email_format_used := Some (format info),
                                   email_domain := Some (domain info)\<rparr>)))"

section \<open>A small format table, for the examples\<close>

definition demo_format :: email_format where
  "demo_format = \<lparr>format = ''[first].[last]'', domain = ''acme.com'',
     example = ''jane.doe@acme.com'', source = ''https://rocketreach.co/acme'',
     confidence = ''high'', source_type = Some ''answerBox''\<rparr>"

definition demo_table :: format_table where
  "demo_table = [(''ACME HEALTH, SPRINGFIELD, IL'', demo_format),
                 (''ACME HEALTH CENTER, SPRINGFIELD, IL'', demo_format)]"

section \<open>Regular expressions, as Python's \<open>re\<close> matches them\<close>

text \<open>
  The patterns of the extractor use literals, character classes, greedy repetition of a
  class, an optional group, alternation, capture groups and the word boundary. \<open>re\<close>
  matches by backtracking: a greedy repetition tries the longest run first, an
  alternation its left branch first, an optional group its presence first. The matcher
  below lists, in that order, every way a pattern matches at the start of the rest of
  the text; the first of the list is the match \<open>re\<close> reports.
\<close>

datatype regex =
    Sym "char \<Rightarrow> bool"
  | Rep "char \<Rightarrow> bool" nat
  | Seq regex regex
  | Alt regex regex
  | Opt regex
  | Grp regex
  | Bnd
  | Eps

text \<open>
  \<open>Sym P\<close> is one character of the class \<open>P\<close>; \<open>Rep P n\<close> is the class repeated at
  least \<open>n\<close> times, greedily (\<open>*\<close>, \<open>+\<close> and \<open>{2,}\<close> are \<open>Rep P 0\<close>, \<open>Rep P 1\<close> and
  \<open>Rep P 2\<close>); \<open>Opt r\<close> is \<open>(?:r)?\<close>; \<open>Grp r\<close> is a capture group; \<open>Bnd\<close> is \<open>\b\<close>.

  A matching state is the character before the position (if any), the rest of the text
  and the captured groups so far, in the order the groups close.
\<close>

type_synonym mstate = "char option \<times> string \<times> string list"

text \<open>
  The word characters of \<open>\b\<close>: the ASCII letters and digits, the underscore, and
  the letters and numeric characters from 128 on (the characters for which
  \<open>str.isalnum()\<close> holds).
\<close>

definition latin1_alnum :: string where
  "latin1_alnum =
     [
      CHR 0xAA, CHR 0xB2, CHR 0xB3, CHR 0xB5, CHR 0xB9, CHR 0xBA, CHR 0xBC, CHR 0xBD,
      CHR 0xBE, CHR 0xC0, CHR 0xC1, CHR 0xC2, CHR 0xC3, CHR 0xC4, CHR 0xC5, CHR 0xC6,
      CHR 0xC7, CHR 0xC8, CHR 0xC9, CHR 0xCA, CHR 0xCB, CHR 0xCC, CHR 0xCD, CHR 0xCE,
      CHR 0xCF, CHR 0xD0, CHR 0xD1, CHR 0xD2, CHR 0xD3, CHR 0xD4, CHR 0xD5, CHR 0xD6,
      CHR 0xD8, CHR 0xD9, CHR 0xDA, CHR 0xDB, CHR 0xDC, CHR 0xDD, CHR 0xDE, CHR 0xDF,
      CHR 0xE0, CHR 0xE1, CHR 0xE2, CHR 0xE3, CHR 0xE4, CHR 0xE5, CHR 0xE6, CHR 0xE7,
      CHR 0xE8, CHR 0xE9, CHR 0xEA, CHR 0xEB, CHR 0xEC, CHR 0xED, CHR 0xEE, CHR 0xEF,
      CHR 0xF0, CHR 0xF1, CHR 0xF2, CHR 0xF3, CHR 0xF4, CHR 0xF5, CHR 0xF6, CHR 0xF8,
      CHR 0xF9, CHR 0xFA, CHR 0xFB, CHR 0xFC, CHR 0xFD, CHR 0xFE, CHR 0xFF]"

definition is_word :: "char \<Rightarrow> bool" where
  "is_word c = (is_lower c \<or> is_upper c \<or> is_digit c \<or> c = CHR ''_''
                \<or> c \<in> set latin1_alnum)"

definition word_before :: "char option \<Rightarrow> bool" where
  "word_before p = (case p of None \<Rightarrow> False | Some c \<Rightarrow> is_word c)"

definition word_after :: "string \<Rightarrow> bool" where
  "word_after s = (case s of [] \<Rightarrow> False | c # _ \<Rightarrow> is_word c)"

definition advance :: "mstate \<Rightarrow> nat \<Rightarrow> mstate" where
  "advance st j =
     (case st of (p, s, caps) \<Rightarrow>
        (if j = 0 then p else Some (s ! (j - 1)), drop j s, caps))"

fun matches :: "regex \<Rightarrow> mstate \<Rightarrow> mstate list" where
  "matches (Sym P) (p, s, caps) =
     (case s of [] \<Rightarrow> [] | c # cs \<Rightarrow> if P c then [(Some c, cs, caps)] else [])"
| "matches (Rep P n) (p, s, caps) =
     map (advance (p, s, caps)) (rev [n..<Suc (length (takeWhile P s))])"
| "matches (Seq r1 r2) st = concat (map (matches r2) (matches r1 st))"
| "matches (Alt r1 r2) st = matches r1 st @ matches r2 st"
| "matches (Opt r) st = matches r st @ [st]"
| "matches (Grp r) (p, s, caps) =
     map (\<lambda>(p', s', caps'). (p', s', caps' @ [take (length s - length s') s]))
         (matches r (p, s, caps))"
| "matches Bnd (p, s, caps) =
     (if word_before p \<noteq> word_after s then [(p, s, caps)] else [])"
| "matches Eps st = [st]"

text \<open>
  \<open>re.search\<close>: the match at the leftmost position that has one; the result is the
  list of its groups. The second argument is the character before the position.
\<close>

fun search_from :: "regex \<Rightarrow> char option \<Rightarrow> string \<Rightarrow> string list option" where
  "search_from r p [] =
     (case matches r (p, [], []) of [] \<Rightarrow> None | (_, _, caps) # _ \<Rightarrow> Some caps)"
| "search_from r p (c # cs) =
     (case matches r (p, c # cs, []) of
        [] \<Rightarrow> search_from r (Some c) cs
      | (_, _, caps) # _ \<Rightarrow> Some caps)"

definition search :: "regex \<Rightarrow> string \<Rightarrow> string list option" where
  "search r text = search_from r None text"

text \<open>
  \<open>re.finditer\<close>: the matches from left to right, each search starting where the
  match before it ended. \<open>skip\<close> counts the characters still covered by the last
  match. (The patterns here match no empty string, so the special treatment \<open>re\<close>
  gives to empty matches plays no part.)
\<close>

fun finditer_from :: "regex \<Rightarrow> nat \<Rightarrow> char option \<Rightarrow> string \<Rightarrow> string list list" where
  "finditer_from r skip p [] =
     (if skip = 0
      then (case matches r (p, [], []) of [] \<Rightarrow> [] | (_, _, caps) # _ \<Rightarrow> [caps])
      else [])"
| "finditer_from r skip p (c # cs) =
     (if 0 < skip then finditer_from r (skip - 1) (Some c) cs
      else case matches r (p, c # cs, []) of
             [] \<Rightarrow> finditer_from r 0 (Some c) cs
           | (_, s', caps) # _ \<Rightarrow>
               caps # finditer_from r (length cs - length s') (Some c) cs)"

definition finditer :: "regex \<Rightarrow> string \<Rightarrow> string list list" where
  "finditer r text = finditer_from r 0 None text"

text \<open>Building patterns: a sequence, a literal, and a literal under \<open>re.IGNORECASE\<close>.\<close>

definition seq :: "regex list \<Rightarrow> regex" where
  "seq rs = foldr Seq rs Eps"

definition chr :: "char \<Rightarrow> char \<Rightarrow> bool" where
  "chr x c = (c = x)"

definition chr_i :: "char \<Rightarrow> char \<Rightarrow> bool" where
  "chr_i x c = (c = to_lower x \<or> c = to_upper x)"

definition lit :: "string \<Rightarrow> regex" where
  "lit s = seq (map (\<lambda>x. Sym (chr x)) s)"

definition lit_i :: "string \<Rightarrow> regex" where
  "lit_i s = seq (map (\<lambda>x. Sym (chr_i x)) s)"

text \<open>
  The character classes of the patterns. Under \<open>re.IGNORECASE\<close> the class \<open>[a-z]\<close>
  holds the letters of both cases.
\<close>

definition alpha :: "char \<Rightarrow> bool" where
  "alpha c = (is_lower c \<or> is_upper c)"

definition alnum :: "char \<Rightarrow> bool" where
  "alnum c = (is_lower c \<or> is_upper c \<or> is_digit c)"

definition host :: "char \<Rightarrow> bool" where
  "host c = (is_lower c \<or> is_upper c \<or> is_digit c \<or> c = CHR ''-'' \<or> c = CHR ''.'')"

definition punct :: "char \<Rightarrow> bool" where
  "punct c = (c = CHR ''.'' \<or> c = CHR ''_'' \<or> c = CHR ''-'')"

text \<open>
  The number of groups of a pattern, and the patterns in which every way of matching
  closes that many groups: both branches of an alternation hold equally many, an
  optional part holds none.
\<close>

fun ngroups :: "regex \<Rightarrow> nat" where
  "ngroups (Seq r1 r2) = ngroups r1 + ngroups r2"
| "ngroups (Alt r1 r2) = ngroups r1"
| "ngroups (Grp r) = Suc (ngroups r)"
| "ngroups r = 0"

fun uniform :: "regex \<Rightarrow> bool" where
  "uniform (Seq r1 r2) = (uniform r1 \<and> uniform r2)"
| "uniform (Alt r1 r2) = (uniform r1 \<and> uniform r2 \<and> ngroups r1 = ngroups r2)"
| "uniform (Opt r) = (uniform r \<and> ngroups r = 0)"
| "uniform (Grp r) = uniform r"
| "uniform r = True"

text \<open>\<open>match_at r rest caps\<close>: the pattern matches at the start of \<open>rest\<close> (after some
  character or none) and closes the groups \<open>caps\<close>.\<close>

definition match_at :: "regex \<Rightarrow> string \<Rightarrow> string list \<Rightarrow> bool" where
  "match_at r rest caps = (\<exists>q q' s'. (q', s', caps) \<in> set (matches r (q, rest, [])))"

section \<open>Text format extractor (extract_email_formats.py)\<close>

text \<open>A candidate of the extractor: an entry without \<open>source_type\<close>.\<close>

definition candidate_format :: "string \<Rightarrow> string \<Rightarrow> string \<Rightarrow> string \<Rightarrow> string \<Rightarrow> email_format" where
  "candidate_format format_name dmn example_email source_link conf =
     \<lparr>format = format_name, domain = dmn, example = example_email, source = source_link,
      confidence = conf, source_type = None\<rparr>"

subsection \<open>Group 1: bracket notation\<close>

text \<open>The tail \<open>\s*\(ex\.\s*(\<dots>@[a-z0-9\-\.]+)\<close> that the bracket patterns share, given
  the pattern of the local part.\<close>

definition ex_tail :: "regex list \<Rightarrow> regex list" where
  "ex_tail local_part =
     [Rep is_space 0, lit_i ''(ex.'', Rep is_space 0,
      Grp (seq (local_part @ [Sym (chr CHR ''@''), Rep host 1]))]"

definition bracket_patterns :: "(regex \<times> string) list" where
  "bracket_patterns =
     [(seq (lit_i ''[first].[last]''
            # ex_tail [Rep alpha 1, Sym (chr CHR ''.''), Rep alpha 1]), ''[first].[last]''),
      (seq (lit_i ''[first]_[last]''
            # ex_tail [Rep alpha 1, Sym (chr CHR ''_''), Rep alpha 1]), ''[first]_[last]''),
      (seq (lit_i ''[first]-[last]''
            # ex_tail [Rep alpha 1, Sym (chr CHR ''-''), Rep alpha 1]), ''[first]-[last]''),
      (seq (lit_i ''[first_initial][last]''
            # ex_tail [Rep alpha 1]), ''[first_initial][last]''),
      (seq (lit_i ''[first][last_initial]''
            # ex_tail [Rep alpha 1]), ''[first][last_initial]''),
      (seq (Alt (lit_i ''format is '') (lit_i ''pattern is '') # lit_i ''[first]''
            # ex_tail [Rep alpha 1]), ''[first]''),
      (seq (Alt (lit_i ''format is '') (lit_i ''pattern is '') # lit_i ''[last]''
            # ex_tail [Rep alpha 1]), ''[last]'')]"

text \<open>
  One turn of the first loop. \<open>match.group(1)\<close> is the only group of the pattern; the
  branch without a group is never taken.
\<close>

definition bracket_match :: "string \<Rightarrow> string \<Rightarrow> regex \<times> string \<Rightarrow> email_format list" where
  "bracket_match text source_link pf =
     (case pf of (pattern, format_name) \<Rightarrow>
        (case search pattern text of
           None \<Rightarrow> []
         | Some [] \<Rightarrow> []
         | Some (g1 # _) \<Rightarrow>
             (let example_email = lower g1
              in if CHR ''@'' \<in> set example_email
                 then (let dmn = split_chr CHR ''@'' example_email ! 1
                       in if dmn \<noteq> []
                          then [candidate_format format_name dmn example_email source_link
                                  ''high'']
                          else [])
                 else [])))"

definition bracket_group :: "string \<Rightarrow> string \<Rightarrow> email_format list" where
  "bracket_group text source_link = concat (map (bracket_match text source_link) bracket_patterns)"

subsection \<open>Group 2: numbered format\<close>

text \<open>The domain group \<open>([a-z0-9\-\.]+\.[a-z]{2,})\<close>.\<close>

definition domain_group :: regex where
  "domain_group = Grp (seq [Rep host 1, Sym (chr CHR ''.''), Rep alpha 2])"

text \<open>\<open>1\.\s+\<close>, the local part, \<open>@\<close>, the domain group, \<open>\s*\(\<close>.\<close>

definition numbered :: "regex list \<Rightarrow> regex" where
  "numbered local_part =
     seq ([lit_i ''1.'', Rep is_space 1] @ local_part
          @ [Sym (chr CHR ''@''), domain_group, Rep is_space 0, Sym (chr CHR ''('')])"

definition numbered_patterns :: "(regex \<times> string) list" where
  "numbered_patterns =
     [(numbered [Grp (Rep alpha 1), Sym (chr CHR ''.''), Grp (Rep alpha 1)], ''[first].[last]''),
      (numbered [Grp (Rep alpha 1), Sym (chr CHR ''_''), Grp (Rep alpha 1)], ''[first]_[last]''),
      (numbered [Grp (Rep alpha 1), Sym (chr CHR ''-''), Grp (Rep alpha 1)], ''[first]-[last]''),
      (numbered [Grp (Sym alpha), Grp (Rep alpha 2)], ''[first_initial][last]''),
      (numbered [Grp (Rep alpha 2)], ''[first]'')]"

text \<open>
  The example address rebuilt from the groups. \<open>None\<close> stands for the case in which
  no branch of the chain assigns \<open>example_email\<close> or a group is missing; no tag of the
  table leads there.
\<close>

definition numbered_example :: "string \<Rightarrow> string list \<Rightarrow> string \<Rightarrow> string option" where
  "numbered_example format_name groups dmn =
     (if format_name = ''[first]''
      then (case groups of g0 # _ \<Rightarrow> Some (g0 @ ''@'' @ dmn) | _ \<Rightarrow> None)
      else if format_name \<in> set [''[first].[last]'', ''[first]_[last]'', ''[first]-[last]'']
      then (let sep = (if format_name = ''[first].[last]'' then ''.''
                       else if format_name = ''[first]_[last]'' then ''_'' else ''-'')
            in case groups of g0 # g1 # _ \<Rightarrow> Some (g0 @ sep @ g1 @ ''@'' @ dmn) | _ \<Rightarrow> None)
      else if format_name = ''[first_initial][last]''
      then (case groups of g0 # g1 # _ \<Rightarrow> Some (g0 @ g1 @ ''@'' @ dmn) | _ \<Rightarrow> None)
      else None)"

text \<open>The second loop leaves at the first pattern that matches.\<close>

fun numbered_loop :: "(regex \<times> string) list \<Rightarrow> string \<Rightarrow> string \<Rightarrow> email_format list" where
  "numbered_loop [] text source_link = []"
| "numbered_loop ((pattern, format_name) # rest) text source_link =
     (case search pattern text of
        None \<Rightarrow> numbered_loop rest text source_link
      | Some groups \<Rightarrow>
          (if groups = [] then []
           else (let dmn = last groups
                 in case numbered_example format_name groups dmn of
                      None \<Rightarrow> []
                    | Some example_email \<Rightarrow>
                        [candidate_format format_name dmn (lower example_email) source_link
                           ''high''])))"

definition numbered_group :: "string \<Rightarrow> string \<Rightarrow> email_format list" where
  "numbered_group text source_link = numbered_loop numbered_patterns text source_link"

subsection \<open>Group 3: capitalized templates\<close>

definition leadiq :: "string \<Rightarrow> regex" where
  "leadiq template =
     seq [Opt (Alt (lit_i ''pattern of '') (lit_i ''format of '')), lit_i template, domain_group]"

definition leadiq_patterns :: "(regex \<times> string) list" where
  "leadiq_patterns =
     [(leadiq ''FLast@'', ''[first_initial][last]''),
      (leadiq ''First.Last@'', ''[first].[last]''),
      (leadiq ''First_Last@'', ''[first]_[last]''),
      (leadiq ''First-Last@'', ''[first]-[last]''),
      (leadiq ''FirstLast@'', ''[first][last]''),
      (leadiq ''First@'', ''[first]'')]"

definition leadiq_example :: "string \<Rightarrow> string \<Rightarrow> string option" where
  "leadiq_example format_name dmn =
     (if format_name = ''[first_initial][last]'' then Some (''jdoe@'' @ dmn)
      else if format_name = ''[first].[last]'' then Some (''jane.doe@'' @ dmn)
      else if format_name = ''[first]_[last]'' then Some (''jane_doe@'' @ dmn)
      else if format_name = ''[first]-[last]'' then Some (''jane-doe@'' @ dmn)
      else if format_name = ''[first][last]'' then Some (''janedoe@'' @ dmn)
      else if format_name = ''[first]'' then Some (''jane@'' @ dmn)
      else None)"

definition leadiq_match :: "string \<Rightarrow> string \<Rightarrow> regex \<times> string \<Rightarrow> email_format list" where
  "leadiq_match text source_link pf =
     (case pf of (pattern, format_name) \<Rightarrow>
        (case search pattern text of
           None \<Rightarrow> []
         | Some [] \<Rightarrow> []
         | Some (g1 # _) \<Rightarrow>
             (let dmn = lower g1
              in case leadiq_example format_name dmn of
                   None \<Rightarrow> []
                 | Some example_email \<Rightarrow>
                     [candidate_format format_name dmn example_email source_link ''high''])))"

definition leadiq_group :: "string \<Rightarrow> string \<Rightarrow> email_format list" where
  "leadiq_group text source_link = concat (map (leadiq_match text source_link) leadiq_patterns)"

subsection \<open>Group 4: any address, with the format inferred\<close>

definition infer_format_from_local_part :: "string \<Rightarrow> string option" where
  "infer_format_from_local_part local_part =
     (if CHR ''.'' \<in> set local_part
      then (case split_chr CHR ''.'' local_part of
              [a, b] \<Rightarrow> if 1 < length a \<and> 1 < length b then Some ''[first].[last]'' else None
            | _ \<Rightarrow> None)
      else if CHR ''_'' \<in> set local_part
      then (case split_chr CHR ''_'' local_part of
              [a, b] \<Rightarrow> if 1 < length a \<and> 1 < length b then Some ''[first]_[last]'' else None
            | _ \<Rightarrow> None)
      else if CHR ''-'' \<in> set local_part
      then (case split_chr CHR ''-'' local_part of
              [a, b] \<Rightarrow> if 1 < length a \<and> 1 < length b then Some ''[first]-[last]'' else None
            | _ \<Rightarrow> None)
      else if 2 < length local_part
      then (if length local_part \<le> 6 then Some ''[first_initial][last]'' else Some ''[first]'')
      else None)"

text \<open>\<open>\b([a-zA-Z0-9]+(?:[._-][a-zA-Z0-9]+)?)@([a-zA-Z0-9.-]+\.[a-zA-Z]{2,})\b\<close>, matched
  without \<open>re.IGNORECASE\<close>.\<close>

definition email_pattern :: regex where
  "email_pattern =
     seq [Bnd,
          Grp (seq [Rep alnum 1, Opt (seq [Sym punct, Rep alnum 1])]),
          Sym (chr CHR ''@''),
          Grp (seq [Rep host 1, Sym (chr CHR ''.''), Rep alpha 2]),
          Bnd]"

text \<open>The last loop leaves at the first address whose format can be inferred.\<close>

fun fallback_loop :: "string list list \<Rightarrow> string \<Rightarrow> email_format list" where
  "fallback_loop [] source_link = []"
| "fallback_loop (groups # rest) source_link =
     (case groups of
        g1 # g2 # _ \<Rightarrow>
          (let local_part = lower g1;
               dmn = lower g2
           in case infer_format_from_local_part local_part of
                None \<Rightarrow> fallback_loop rest source_link
              | Some inferred_format \<Rightarrow>
                  [candidate_format inferred_format dmn (local_part @ ''@'' @ dmn) source_link
                     ''medium''])
      | _ \<Rightarrow> fallback_loop rest source_link)"

definition fallback_group :: "string \<Rightarrow> string \<Rightarrow> email_format list" where
  "fallback_group text source_link = fallback_loop (finditer email_pattern text) source_link"

subsection \<open>The extractor\<close>

definition extract_formats_from_text_improved :: "string \<Rightarrow> string \<Rightarrow> email_format list" where
  "extract_formats_from_text_improved text source_link =
     (let extracted = bracket_group text source_link @ numbered_group text source_link
                      @ leadiq_group text source_link
      in if extracted = [] then fallback_group text source_link else extracted)"

section \<open>Source prioritizer (extract_email_formats.py)\<close>

text \<open>
  A search result, the answer box or an organic one, with the defaults of
  \<open>.get('link', '')\<close> and \<open>.get('snippet', '')\<close> filled in. \<open>results\<close> is \<open>None\<close> when the
  entry has no results or an empty dict, and \<open>answerBox\<close> is \<open>None\<close> when the key is
  missing or its dict is empty.
\<close>

record search_result =
  link :: string
  snippet :: string

record search_results =
  answerBox :: "search_result option"
  organic :: "search_result list"

record serper_entry =
  facility :: string
  results :: "search_results option"

definition source_priority :: "string \<Rightarrow> nat" where
  "source_priority lnk =
     (if sublist ''rocketreach.co'' lnk then 80
      else if sublist ''leadiq.com'' lnk then 70
      else if sublist ''contactout.com'' lnk then 60
      else if sublist ''signalhire.com'' lnk then 50
      else 0)"

definition organic_priority :: "nat \<Rightarrow> string \<Rightarrow> nat" where
  "organic_priority position lnk =
     source_priority lnk + (if position = 0 then 10 else 0)"

text \<open>The loop over the organic results; the state is \<open>(best_match, best_priority)\<close>.\<close>

fun organic_loop ::
  "nat \<Rightarrow> search_result list \<Rightarrow> email_format option \<times> nat \<Rightarrow> email_format option \<times> nat" where
  "organic_loop position [] best = best"
| "organic_loop position (r # rs) (best_match, best_priority) =
     (let priority = organic_priority position (link r)
      in if best_priority < priority
         then (case extract_formats_from_text_improved (snippet r) (link r) of
                 [] \<Rightarrow> organic_loop (Suc position) rs (best_match, best_priority)
               | f # _ \<Rightarrow>
                   organic_loop (Suc position) rs
                     (Some (f\<lparr>source_type := Some ''organic''\<rparr>), priority))
         else organic_loop (Suc position) rs (best_match, best_priority))"

text \<open>The body of the loop over the entries, from \<open>best_match = None\<close> on.\<close>

definition answer_box_match :: "search_results \<Rightarrow> email_format option \<times> nat" where
  "answer_box_match sr =
     (case answerBox sr of
        None \<Rightarrow> (None, 0)
      | Some box \<Rightarrow>
          (case extract_formats_from_text_improved (snippet box) (link box) of
             [] \<Rightarrow> (None, 0)
           | f # _ \<Rightarrow> (Some (f\<lparr>source_type := Some ''answerBox''\<rparr>), 100)))"

definition best_match_of :: "search_results \<Rightarrow> email_format option" where
  "best_match_of sr =
     (let (best_match, best_priority) = answer_box_match sr
      in if best_match = None \<or> best_priority < 90
         then fst (organic_loop 0 (organic sr) (best_match, best_priority))
         else best_match)"

definition process_entry :: "(string \<rightharpoonup> email_format) \<Rightarrow> serper_entry \<Rightarrow> (string \<rightharpoonup> email_format)" where
  "process_entry email_formats entry =
     (case results entry of
        None \<Rightarrow> email_formats
      | Some sr \<Rightarrow>
          (case best_match_of sr of
             None \<Rightarrow> email_formats
           | Some best_match \<Rightarrow> email_formats(facility entry \<mapsto> best_match)))"

text \<open>\<open>extract_formats_from_serper_results\<close>, on the list read from the results file.\<close>

definition extract_formats_from_serper_results :: "serper_entry list \<Rightarrow> (string \<rightharpoonup> email_format)" where
  "extract_formats_from_serper_results entries = foldl process_entry Map.empty entries"

text \<open>An entry none of whose snippets gives the extractor anything.\<close>

definition no_extraction :: "serper_entry \<Rightarrow> bool" where
  "no_extraction entry =
     (case results entry of
        None \<Rightarrow> True
      | Some sr \<Rightarrow>
          (case answerBox sr of
             None \<Rightarrow> True
           | Some box \<Rightarrow> extract_formats_from_text_improved (snippet box) (link box) = [])
          \<and> (\<forall>r\<in>set (organic sr).
                extract_formats_from_text_improved (snippet r) (link r) = []))"

section \<open>Snippets for the examples\<close>

definition ranked_snippet :: string where
  "ranked_snippet = ''1. jdoe@acme.com (80%)'' @ [CHR 0x0A] @ ''2. jane.doe@acme.com (20%)''"

definition rank_eleven_snippet :: string where
  "rank_eleven_snippet = ''1. jdoe@acme.com (80%)'' @ [CHR 0x0A] @ ''11. jane.doe@acme.com (1%)''"

definition mixed_snippet :: string where
  "mixed_snippet = ''[first].[last] (ex. jane.doe@acme.com) 1. jdoe@acme.com (80%)''"

definition two_addresses :: string where
  "two_addresses = ''ab@x.com jane.doe@acme.com''"

section \<open>Search results for the examples\<close>

definition demo_box :: search_result where
  "demo_box = \<lparr>link = ''https://rocketreach.co/acme'', snippet = ranked_snippet\<rparr>"

definition demo_results :: search_results where
  "demo_results = \<lparr>answerBox = Some demo_box,
                    organic = [\<lparr>link = ''https://rocketreach.co/acme-health'',
                                snippet = mixed_snippet\<rparr>]\<rparr>"

definition demo_entries :: "serper_entry list" where
  "demo_entries =
     [\<lparr>facility = ''ACME HEALTH, SPRINGFIELD, IL'', results = Some demo_results\<rparr>,
      \<lparr>facility = ''QUIET CLINIC, SPRINGFIELD, IL'',
       results = Some \<lparr>answerBox = Some \<lparr>link = '''', snippet = ''''\<rparr>,
                        organic = [\<lparr>link = ''https://leadiq.com/quiet'', snippet = ''''\<rparr>]\<rparr>\<rparr>]"

section \<open>Properties of the string operations\<close>

lemma to_upper_not_lower: "\<not> is_lower (to_upper c)"
  by (auto simp: to_upper_def is_lower_def ascii_lowercase_def ascii_uppercase_def)

lemma to_upper_id: "\<not> is_lower c \<Longrightarrow> to_upper c = c"
  by (auto simp: to_upper_def is_lower_def ascii_lowercase_def ascii_uppercase_def)

lemma upper_id: "\<forall>c\<in>set s. \<not> is_lower c \<Longrightarrow> upper s = s"
  by (induction s) (auto simp: upper_def to_upper_id)

lemma upper_no_lower: "c \<in> set (upper s) \<Longrightarrow> \<not> is_lower c"
  by (auto simp: upper_def to_upper_not_lower)

lemma to_upper_comma: "to_upper c = CHR '','' \<Longrightarrow> c = CHR '',''"
  by (auto simp: to_upper_def  ascii_lowercase_def ascii_uppercase_def split: if_splits)

lemma to_upper_blank: "to_upper c = CHR '' '' \<Longrightarrow> c = CHR '' ''"
  by (auto simp: to_upper_def  ascii_lowercase_def ascii_uppercase_def split: if_splits)

lemma dropWhile_id: "s = [] \<or> \<not> P (hd s) \<Longrightarrow> dropWhile P s = s"
  by (cases s) auto

lemma dropWhile_hd: "dropWhile P s \<noteq> [] \<Longrightarrow> \<not> P (hd (dropWhile P s))"
  by (simp add: hd_dropWhile)

lemma dropWhile_last: "dropWhile P s \<noteq> [] \<Longrightarrow> last (dropWhile P s) = last s"
  by (induction s) (auto split: if_splits)

lemma strip_id: "s = [] \<or> (\<not> is_space (hd s) \<and> \<not> is_space (last s)) \<Longrightarrow> strip s = s"
  unfolding strip_def
  by (cases "s = []") (simp_all add: dropWhile_id hd_rev)

lemma strip_ends:
  assumes "strip s \<noteq> []"
  shows "\<not> is_space (hd (strip s)) \<and> \<not> is_space (last (strip s))"
proof -
  let ?t = "dropWhile is_space s"
  let ?u = "dropWhile is_space (rev ?t)"
  from assms have u: "?u \<noteq> []" by (simp add: strip_def)
  have t: "?t \<noteq> []"
    using u by (metis dropWhile.simps(1) rev.simps(1))
  have "\<not> is_space (hd ?u)" using u by (rule dropWhile_hd)
  moreover have "last ?u = hd ?t" using dropWhile_last[OF u] t by (simp add: last_rev)
  moreover have "\<not> is_space (hd ?t)" using t by (rule dropWhile_hd)
  ultimately show ?thesis using u by (simp add: strip_def hd_rev last_rev)
qed

lemma strip_strip: "strip (strip s) = strip s"
  using strip_ends[of s] by (intro strip_id) blast

lemma set_strip: "set (strip s) \<subseteq> set s"
  by (auto simp: strip_def dest!: set_dropWhileD)

lemma set_replace_str: "set (replace_str old new s) \<subseteq> set s \<union> set new"
proof (induction old new s rule: replace_str.induct)
  case (1 old new)
  then show ?case by simp
next
  case (2 old new c cs)
  show ?case
  proof (cases "old \<noteq> [] \<and> prefix old (c # cs)")
    case True
    have "set (drop (length old) (c # cs)) \<subseteq> set (c # cs)" by (rule set_drop_subset)
    with 2(1)[OF True] True show ?thesis by auto
  next
    case False
    with 2(2)[OF False] show ?thesis by auto
  qed
qed

lemma replace_str_absent:
  "x \<in> set old \<Longrightarrow> x \<notin> set s \<Longrightarrow> replace_str old new s = s"
proof (induction s)
  case Nil
  then show ?case by simp
next
  case (Cons c cs)
  have "\<not> prefix old (c # cs)"
  proof
    assume "prefix old (c # cs)"
    then have "set old \<subseteq> set (c # cs)" by (rule set_mono_prefix)
    with Cons.prems show False by auto
  qed
  with Cons show ?case by simp
qed

lemma replace_str_removes: "x \<notin> set (replace_str [x] [] s)"
  by (induction s) auto

lemma replace_str_keeps_absent: "x \<notin> set s \<Longrightarrow> x \<notin> set (replace_str old [] s)"
  using set_replace_str[of old "[]" s] by auto

lemma apply_replacements_no_punct:
  "CHR '','' \<notin> set (apply_replacements replacements s) \<and>
   CHR ''.'' \<notin> set (apply_replacements replacements s)"
  by (simp add: apply_replacements_def replacements_def replace_str_removes
      replace_str_keeps_absent)

lemma apply_replacements_upper:
  assumes "\<forall>c\<in>set s. \<not> is_lower c"
  shows "\<forall>c\<in>set (apply_replacements replacements s). \<not> is_lower c"
proof -
  have step: "\<And>old new t. \<forall>c\<in>set t. \<not> is_lower c \<Longrightarrow> \<forall>c\<in>set new. \<not> is_lower c \<Longrightarrow>
      \<forall>c\<in>set (replace_str old new t). \<not> is_lower c"
    using set_replace_str by fastforce
  have gen: "\<And>t. \<forall>(old, new)\<in>set rs. \<forall>c\<in>set new. \<not> is_lower c \<Longrightarrow>
      \<forall>c\<in>set t. \<not> is_lower c \<Longrightarrow> \<forall>c\<in>set (apply_replacements rs t). \<not> is_lower c" for rs
  proof (induction rs)
    case Nil
    then show ?case by (simp add: apply_replacements_def)
  next
    case (Cons r rs)
    obtain old new where r: "r = (old, new)" by (cases r)
    have "\<forall>c\<in>set (replace_str old new t). \<not> is_lower c"
      using Cons.prems r by (intro step) auto
    then have "\<forall>c\<in>set (apply_replacements rs (replace_str old new t)). \<not> is_lower c"
      using Cons.prems by (intro Cons.IH) auto
    then show ?case by (simp add: apply_replacements_def r)
  qed
  have "\<forall>(old, new)\<in>set replacements. \<forall>c\<in>set new. \<not> is_lower c"
    by (simp add: replacements_def is_lower_def ascii_lowercase_def)
  then show ?thesis using assms by (rule gen)
qed

lemma apply_replacements_id:
  assumes "CHR '','' \<notin> set s" "CHR ''.'' \<notin> set s"
  shows "apply_replacements replacements s = s"
  using assms
  by (simp add: apply_replacements_def replacements_def
      replace_str_absent[of "CHR '',''"] replace_str_absent[of "CHR ''.''"])

lemma split_ws_aux_wordy:
  "\<forall>c\<in>set acc. \<not> is_space c \<Longrightarrow> w \<in> set (split_ws_aux acc s) \<Longrightarrow> wordy w"
proof (induction acc s rule: split_ws_aux.induct)
  case (1 acc)
  then show ?case by (cases "acc = []") (simp_all add: wordy_def)
next
  case (2 acc c cs)
  show ?case
  proof (cases "is_space c")
    case sp: True
    show ?thesis
    proof (cases "acc = []")
      case True
      with sp 2 show ?thesis by simp
    next
      case False
      with sp 2(5) have "w = rev acc \<or> w \<in> set (split_ws_aux [] cs)" by simp
      then show ?thesis
      proof
        assume "w = rev acc"
        with False 2(4) show ?thesis by (simp add: wordy_def)
      next
        assume "w \<in> set (split_ws_aux [] cs)"
        with 2(2)[OF sp False] show ?thesis by simp
      qed
    qed
  next
    case False
    with 2(3)[OF False] 2(4,5) show ?thesis by simp
  qed
qed

lemma split_ws_wordy: "w \<in> set (split_ws s) \<Longrightarrow> wordy w"
  unfolding split_ws_def by (rule split_ws_aux_wordy[of "[]"]) auto

lemma split_ws_aux_set:
  "w \<in> set (split_ws_aux acc s) \<Longrightarrow> set w \<subseteq> set acc \<union> set s"
  by (induction acc s rule: split_ws_aux.induct) (auto split: if_splits)

lemma split_ws_set: "w \<in> set (split_ws s) \<Longrightarrow> set w \<subseteq> set s"
  unfolding split_ws_def using split_ws_aux_set[of w "[]" s] by simp

lemma split_ws_aux_word:
  "\<forall>c\<in>set w. \<not> is_space c \<Longrightarrow> split_ws_aux acc (w @ rest) = split_ws_aux (rev w @ acc) rest"
  by (induction w arbitrary: acc) auto

lemma blank_not_lower: "\<not> is_lower CHR '' ''"
  by (simp add: is_lower_def ascii_lowercase_def)

lemma blank_is_space: "is_space CHR '' ''"
  by (simp add: is_space_def whitespace_def)

lemma split_join:
  "\<forall>w\<in>set ws. wordy w \<Longrightarrow> split_ws (join_str '' '' ws) = ws"
proof (induction "'' ''" ws rule: join_str.induct)
  case 1
  then show ?case by (simp add: split_ws_def)
next
  case (2 w)
  then have "split_ws_aux [] (w @ []) = split_ws_aux (rev w @ []) []"
    by (intro split_ws_aux_word) (simp add: wordy_def)
  with 2 show ?case by (simp add: split_ws_def wordy_def)
next
  case (3 w v ws)
  have "split_ws_aux [] (w @ '' '' @ join_str '' '' (v # ws))
        = split_ws_aux (rev w @ []) ('' '' @ join_str '' '' (v # ws))"
    using 3(2) by (intro split_ws_aux_word) (simp add: wordy_def)
  also have "\<dots> = w # split_ws_aux [] (join_str '' '' (v # ws))"
    using 3(2) by (simp add: blank_is_space wordy_def)
  also have "\<dots> = w # v # ws"
    using 3 by (simp add: split_ws_def)
  finally show ?case by (simp add: split_ws_def)
qed

lemma join_set: "set (join_str sep ws) \<subseteq> set sep \<union> \<Union> (set ` set ws)"
  by (induction sep ws rule: join_str.induct) auto

lemma join_ends:
  "\<forall>w\<in>set ws. wordy w \<Longrightarrow> ws \<noteq> [] \<Longrightarrow>
   join_str '' '' ws \<noteq> [] \<and> \<not> is_space (hd (join_str '' '' ws)) \<and>
   \<not> is_space (last (join_str '' '' ws))"
proof (induction "'' ''" ws rule: join_str.induct)
  case 1
  then show ?case by simp
next
  case (2 w)
  then show ?case by (cases w) (auto simp: wordy_def)
next
  case (3 w v ws)
  then show ?case by (cases w) (auto simp: wordy_def)
qed

lemma normalize_org_name_idem:
  "normalize_org_name (Str (normalize_org_name x)) = normalize_org_name x"
proof (cases "isna x")
  case True
  then show ?thesis
    by (simp add: normalize_org_name_def upper_def strip_def apply_replacements_def
        replacements_def split_ws_def)
next
  case False
  define t where "t = apply_replacements replacements (strip (upper (py_str x)))"
  define ws where "ws = split_ws t"
  define r where "r = join_str '' '' ws"
  have r: "normalize_org_name x = r"
    using False by (simp add: normalize_org_name_def r_def ws_def t_def)
  have wordy: "\<forall>w\<in>set ws. wordy w"
    by (simp add: ws_def split_ws_wordy)
  have up_t: "\<forall>c\<in>set t. \<not> is_lower c"
    unfolding t_def using set_strip[of "upper (py_str x)"]
    by (intro apply_replacements_upper) (auto dest: upper_no_lower)
  have set_r: "set r \<subseteq> insert (CHR '' '') (set t)"
    using join_set[of "'' ''" ws] split_ws_set[of _ t] by (auto simp: r_def ws_def)
  have "\<forall>c\<in>set r. \<not> is_lower c"
    using set_r up_t blank_not_lower by auto
  then have 1: "upper r = r" by (rule upper_id)
  have 2: "strip r = r"
  proof (cases "ws = []")
    case True
    then show ?thesis by (simp add: r_def strip_def)
  next
    case False
    with join_ends[OF wordy] show ?thesis by (intro strip_id) (simp add: r_def)
  qed
  have "CHR '','' \<notin> set r" "CHR ''.'' \<notin> set r"
    using set_r apply_replacements_no_punct[of "strip (upper (py_str x))"]
    by (auto simp: t_def)
  then have 3: "apply_replacements replacements r = r" by (rule apply_replacements_id)
  have 4: "split_ws r = ws" unfolding r_def using wordy by (rule split_join)
  show ?thesis
    unfolding r by (simp add: normalize_org_name_def 1 2 3 4) (simp add: r_def)
qed

lemma upper_strip_idem: "upper_strip (Str (upper_strip x)) = upper_strip x"
proof (cases "isna x")
  case True
  then show ?thesis by (simp add: upper_strip_def upper_def strip_def)
next
  case False
  have "\<forall>c\<in>set (strip (upper (py_str x))). \<not> is_lower c"
    using set_strip[of "upper (py_str x)"] by (auto dest: upper_no_lower)
  then have "upper (strip (upper (py_str x))) = strip (upper (py_str x))" by (rule upper_id)
  with False show ?thesis by (simp add: upper_strip_def strip_strip)
qed

section \<open>Key normalization\<close>

text \<open>
  C7. Normalization is idempotent: normalizing a normalized organisation name changes
  nothing, and when \<open>create_facility_key\<close> yields a key, building the key again from
  the normalized organisation name, city and state yields the same key.
\<close>

theorem normalization_idempotent:
  "normalize_org_name (Str (normalize_org_name x)) = normalize_org_name x \<and>
   (create_facility_key org city state = Some k \<longrightarrow>
    create_facility_key (Str (normalize_org_name org)) (Str (upper_strip city))
      (Str (upper_strip state)) = Some k)"
  by (auto simp: create_facility_key_def Let_def normalize_org_name_idem upper_strip_idem
      split: if_splits)

theorem normalization_idempotent_witness:
  "create_facility_key (Str ''Acme Health, Inc.'') (Str ''Springfield'') (Str ''il'')
     = Some ''ACME HEALTH INC, SPRINGFIELD, IL'' \<and>
   create_facility_key (Str ''ACME HEALTH INC'') (Str ''SPRINGFIELD'') (Str ''IL'')
     = Some ''ACME HEALTH INC, SPRINGFIELD, IL''"
proof -
  have k: "create_facility_key (Str ''Acme Health, Inc.'') (Str ''Springfield'') (Str ''il'')
     = Some ''ACME HEALTH INC, SPRINGFIELD, IL''"
    by code_simp
  have n: "normalize_org_name (Str ''Acme Health, Inc.'') = ''ACME HEALTH INC''" by code_simp
  have c: "upper_strip (Str ''Springfield'') = ''SPRINGFIELD''" by code_simp
  have s: "upper_strip (Str ''il'') = ''IL''" by code_simp
  from normalization_idempotent[where org = "Str ''Acme Health, Inc.''"
      and city = "Str ''Springfield''" and state = "Str ''il''"
      and k = "''ACME HEALTH INC, SPRINGFIELD, IL''"] k
  show ?thesis by (simp only: n c s simp_thms)
qed


section \<open>Email generation\<close>

lemma filter_dropWhile_neg: "(\<And>x. P x \<Longrightarrow> \<not> Q x) \<Longrightarrow> filter P (dropWhile Q xs) = filter P xs"
  by (induction xs) auto

lemma filter_strip: "(\<And>x. P x \<Longrightarrow> \<not> is_space x) \<Longrightarrow> filter P (strip s) = filter P s"
proof -
  assume a: "\<And>x. P x \<Longrightarrow> \<not> is_space x"
  have "filter P (strip s) = rev (filter P (dropWhile is_space (rev (dropWhile is_space s))))"
    by (simp add: strip_def rev_filter)
  also have "\<dots> = rev (filter P (rev (dropWhile is_space s)))"
    using a by (simp add: filter_dropWhile_neg)
  also have "\<dots> = filter P (dropWhile is_space s)" by (simp add: rev_filter)
  also have "\<dots> = filter P s" using a by (simp add: filter_dropWhile_neg)
  finally show ?thesis .
qed

lemma is_lower_to_lower: "is_lower (to_lower c) = (is_lower c \<or> is_upper c)"
  by (auto simp: to_lower_def is_lower_def is_upper_def ascii_lowercase_def ascii_uppercase_def)

lemma not_space_letter: "is_lower c \<or> is_upper c \<Longrightarrow> \<not> is_space c"
  by (auto simp: is_space_def whitespace_def is_lower_def is_upper_def ascii_lowercase_def ascii_uppercase_def)

lemma clean_name_letters:
  "clean_name (Str s) = map to_lower (filter (\<lambda>c. is_lower c \<or> is_upper c) s)"
proof -
  have "clean_name (Str s) = map to_lower (filter (\<lambda>c. is_lower c \<or> is_upper c) (strip s))"
    by (simp add: clean_name_def lower_def filter_map comp_def is_lower_to_lower)
  also have "filter (\<lambda>c. is_lower c \<or> is_upper c) (strip s) = filter (\<lambda>c. is_lower c \<or> is_upper c) s"
    by (rule filter_strip) (rule not_space_letter)
  finally show ?thesis .
qed

lemma clean_name_spec: "clean_name x = lowercase_letters (py_str x)"
proof -
  have "clean_name x = clean_name (Str (py_str x))" by (simp add: clean_name_def)
  then show ?thesis by (simp add: clean_name_letters lowercase_letters_def)
qed

text \<open>
  C8. \<open>generate_email\<close> cleans each name by lowercasing it and stripping every character
  that is not a letter, and builds the address from the cleaned names: for two names
  whose cleaned forms are not empty, the result is the rendering of the template on the
  cleaned names with the domain, and nothing for a tag outside the recognised ones. It
  returns nothing when a name is missing or a cleaned name is empty. Mary-Jane O'Brien
  under \<open>[first].[last]\<close> at acme.com gives maryjane.obrien@acme.com.
\<close>

theorem generate_email_contract:
  "(lowercase_letters a \<noteq> [] \<and> lowercase_letters b \<noteq> [] \<longrightarrow>
      generate_email (Str a) (Str b) email_format dmn =
        (if email_format = ''[first].[last]''
           then Some (lowercase_letters a @ ''.'' @ lowercase_letters b @ ''@'' @ dmn)
         else if email_format = ''[first_initial][last]''
           then Some (take 1 (lowercase_letters a) @ lowercase_letters b @ ''@'' @ dmn)
         else if email_format = ''[first][last_initial]''
           then Some (lowercase_letters a @ take 1 (lowercase_letters b) @ ''@'' @ dmn)
         else if email_format = ''[first]''
           then Some (lowercase_letters a @ ''@'' @ dmn)
         else if email_format = ''[last]''
           then Some (lowercase_letters b @ ''@'' @ dmn)
         else if email_format = ''[first]_[last]''
           then Some (lowercase_letters a @ ''_'' @ lowercase_letters b @ ''@'' @ dmn)
         else if email_format = ''[first]-[last]''
           then Some (lowercase_letters a @ ''-'' @ lowercase_letters b @ ''@'' @ dmn)
         else if email_format = ''[first][last]''
           then Some (lowercase_letters a @ lowercase_letters b @ ''@'' @ dmn)
         else None)) \<and>
   (lowercase_letters (py_str first_name) = [] \<or> lowercase_letters (py_str last_name) = [] \<longrightarrow>
      generate_email first_name last_name email_format dmn = None) \<and>
   (isna first_name \<or> isna last_name \<longrightarrow>
      generate_email first_name last_name email_format dmn = None) \<and>
   (email_format \<notin> set format_templates \<longrightarrow>
      generate_email first_name last_name email_format dmn = None) \<and>
   generate_email (Str ''Mary-Jane'') (Str (''O'' @ [CHR 0x27] @ ''Brien'')) ''[first].[last]''
      ''acme.com'' = Some ''maryjane.obrien@acme.com''"
proof -
  have 1: "lowercase_letters a \<noteq> [] \<and> lowercase_letters b \<noteq> [] \<longrightarrow>
      generate_email (Str a) (Str b) email_format dmn =
        (if email_format = ''[first].[last]''
           then Some (lowercase_letters a @ ''.'' @ lowercase_letters b @ ''@'' @ dmn)
         else if email_format = ''[first_initial][last]''
           then Some (take 1 (lowercase_letters a) @ lowercase_letters b @ ''@'' @ dmn)
         else if email_format = ''[first][last_initial]''
           then Some (lowercase_letters a @ take 1 (lowercase_letters b) @ ''@'' @ dmn)
         else if email_format = ''[first]''
           then Some (lowercase_letters a @ ''@'' @ dmn)
         else if email_format = ''[last]''
           then Some (lowercase_letters b @ ''@'' @ dmn)
         else if email_format = ''[first]_[last]''
           then Some (lowercase_letters a @ ''_'' @ lowercase_letters b @ ''@'' @ dmn)
         else if email_format = ''[first]-[last]''
           then Some (lowercase_letters a @ ''-'' @ lowercase_letters b @ ''@'' @ dmn)
         else if email_format = ''[first][last]''
           then Some (lowercase_letters a @ lowercase_letters b @ ''@'' @ dmn)
         else None)"
  proof
    assume ne: "lowercase_letters a \<noteq> [] \<and> lowercase_letters b \<noteq> []"
    then have "a \<noteq> []" "b \<noteq> []" by (auto simp: lowercase_letters_def)
    with ne show "generate_email (Str a) (Str b) email_format dmn =
        (if email_format = ''[first].[last]''
           then Some (lowercase_letters a @ ''.'' @ lowercase_letters b @ ''@'' @ dmn)
         else if email_format = ''[first_initial][last]''
           then Some (take 1 (lowercase_letters a) @ lowercase_letters b @ ''@'' @ dmn)
         else if email_format = ''[first][last_initial]''
           then Some (lowercase_letters a @ take 1 (lowercase_letters b) @ ''@'' @ dmn)
         else if email_format = ''[first]''
           then Some (lowercase_letters a @ ''@'' @ dmn)
         else if email_format = ''[last]''
           then Some (lowercase_letters b @ ''@'' @ dmn)
         else if email_format = ''[first]_[last]''
           then Some (lowercase_letters a @ ''_'' @ lowercase_letters b @ ''@'' @ dmn)
         else if email_format = ''[first]-[last]''
           then Some (lowercase_letters a @ ''-'' @ lowercase_letters b @ ''@'' @ dmn)
         else if email_format = ''[first][last]''
           then Some (lowercase_letters a @ lowercase_letters b @ ''@'' @ dmn)
         else None)"
      unfolding generate_email_def Let_def clean_name_spec by simp
  qed
  have 2: "lowercase_letters (py_str first_name) = [] \<or> lowercase_letters (py_str last_name) = [] \<longrightarrow>
      generate_email first_name last_name email_format dmn = None"
    unfolding generate_email_def Let_def clean_name_spec by simp
  have 3: "isna first_name \<or> isna last_name \<longrightarrow>
      generate_email first_name last_name email_format dmn = None"
    by (auto simp: generate_email_def)
  have 4: "email_format \<notin> set format_templates \<longrightarrow>
      generate_email first_name last_name email_format dmn = None"
    by (simp add: generate_email_def format_templates_def Let_def)
  have 5: "generate_email (Str ''Mary-Jane'') (Str (''O'' @ [CHR 0x27] @ ''Brien'')) ''[first].[last]''
      ''acme.com'' = Some ''maryjane.obrien@acme.com''"
    by code_simp
  from 1 2 3 4 5 show ?thesis by (intro conjI)
qed

theorem generate_email_contract_witness:
  "lowercase_letters ''Jane 2nd'' = ''janend'' \<and>
   lowercase_letters ''de la Cruz'' = ''delacruz'' \<and>
   generate_email (Str ''Jane 2nd'') (Str ''de la Cruz'') ''[first].[last]'' ''acme.com''
     = Some ''janend.delacruz@acme.com'' \<and>
   generate_email (Str ''Jane 2nd'') (Str ''de la Cruz'') ''[first_initial][last]'' ''acme.com''
     = Some ''jdelacruz@acme.com'' \<and>
   lowercase_letters (py_str (Str ''2024'')) = [] \<and>
   generate_email (Str ''2024'') (Str ''Doe'') ''[first].[last]'' ''acme.com'' = None \<and>
   generate_email NaN (Str ''Doe'') ''[first].[last]'' ''acme.com'' = None \<and>
   ''[firstname]'' \<notin> set format_templates \<and>
   generate_email (Str ''Jane'') (Str ''Doe'') ''[firstname]'' ''acme.com'' = None"
proof -
  have a: "lowercase_letters ''Jane 2nd'' = ''janend''" by code_simp
  have b: "lowercase_letters ''de la Cruz'' = ''delacruz''" by code_simp
  have c: "lowercase_letters (py_str (Str ''2024'')) = []" by code_simp
  have f: "''[firstname]'' \<notin> set format_templates" by code_simp
  from generate_email_contract[of "''Jane 2nd''" "''de la Cruz''" "''[first].[last]''" "''acme.com''"]
  have 1: "generate_email (Str ''Jane 2nd'') (Str ''de la Cruz'') ''[first].[last]'' ''acme.com''
     = Some ''janend.delacruz@acme.com''"
    by (simp add: a b)
  from generate_email_contract[of "''Jane 2nd''" "''de la Cruz''" "''[first_initial][last]''"
      "''acme.com''"]
  have 2: "generate_email (Str ''Jane 2nd'') (Str ''de la Cruz'') ''[first_initial][last]'' ''acme.com''
     = Some ''jdelacruz@acme.com''"
    by (simp add: a b)
  from generate_email_contract[of _ _ "''[first].[last]''" "''acme.com''" "Str ''2024''" "Str ''Doe''"] c
  have 3: "generate_email (Str ''2024'') (Str ''Doe'') ''[first].[last]'' ''acme.com'' = None"
    by blast
  from generate_email_contract[of _ _ "''[first].[last]''" "''acme.com''" NaN "Str ''Doe''"]
  have 4: "generate_email NaN (Str ''Doe'') ''[first].[last]'' ''acme.com'' = None"
    by simp
  from generate_email_contract[of _ _ "''[firstname]''" "''acme.com''" "Str ''Jane''" "Str ''Doe''"] f
  have 5: "generate_email (Str ''Jane'') (Str ''Doe'') ''[firstname]'' ''acme.com'' = None"
    by blast
  from a b 1 2 c 3 4 f 5 show ?thesis by (intro conjI)
qed

section \<open>Splitting a facility key\<close>

lemma filter_rev_upt_last:
  assumes "P i" "i \<le> n" "\<And>j. i < j \<Longrightarrow> j \<le> n \<Longrightarrow> \<not> P j"
  shows "filter P (rev [0..<Suc n]) = i # filter P (rev [0..<i])"
proof -
  have a: "[0..<Suc n] = [0..<i] @ [i..<Suc n]"
    using upt_add_eq_append[of 0 i "Suc n - i"] assms(2) by simp
  have b: "[i..<Suc n] = i # [Suc i..<Suc n]"
    using assms(2) by (simp add: upt_conv_Cons)
  have c: "filter P [Suc i..<Suc n] = []"
    using assms(3) by (auto simp: filter_empty_conv)
  have "filter P [0..<Suc n] = filter P [0..<i] @ [i]"
    unfolding a b using c assms(1) by simp
  then have "rev (filter P [0..<Suc n]) = i # rev (filter P [0..<i])"
    by (simp only: rev_append rev.simps append.simps)
  then show ?thesis by (simp only: rev_filter)
qed

lemma sublist_drop: "prefix x (drop i s) \<Longrightarrow> sublist x s"
proof -
  assume "prefix x (drop i s)"
  then obtain r where "drop i s = x @ r" by (auto simp: prefix_def)
  then have "s = take i s @ x @ r" by (metis append_take_drop_id)
  then show ?thesis unfolding sublist_def by blast
qed

lemma rfind_sep:
  assumes "\<not> sublist '', '' b"
  shows "rfind '', '' (a @ '', '' @ b) = Some (length a)"
proof -
  define s where "s = a @ '', '' @ b"
  define P where "P = (\<lambda>i. prefix '', '' (drop i s))"
  have 1: "P (length a)" by (simp add: P_def s_def)
  have 2: "length a \<le> length s" by (simp add: s_def)
  have 3: "\<not> P j" if "length a < j" "j \<le> length s" for j
  proof (cases "j = Suc (length a)")
    case True
    then show ?thesis by (simp add: P_def s_def)
  next
    case False
    define m where "m = j - (length a + 2)"
    have j: "j = length a + 2 + m" using that False by (simp add: m_def)
    have d: "drop j s = drop m b" by (simp add: j s_def)
    show ?thesis
    proof
      assume "P j"
      then have "prefix '', '' (drop m b)" using d by (simp add: P_def)
      then have "sublist '', '' b" by (rule sublist_drop)
      with assms show False ..
    qed
  qed
  have "filter P (rev [0..<Suc (length s)]) = length a # filter P (rev [0..<length a])"
    using 1 2 3 by (rule filter_rev_upt_last)
  then have "rfind '', '' s = Some (length a)"
    by (simp only: rfind_def P_def list.simps)
  then show ?thesis by (simp only: s_def)
qed


lemma rsplit_once:
  assumes "\<not> sublist '', '' b"
  shows "rsplit '', '' (Suc n) (a @ '', '' @ b) = rsplit '', '' n a @ [b]"
proof -
  have "rsplit '', '' (Suc n) (a @ '', '' @ b)
        = rsplit '', '' n (take (length a) (a @ '', '' @ b))
          @ [drop (length a + length '', '') (a @ '', '' @ b)]"
    by (simp only: rsplit.simps rfind_sep[OF assms] option.simps)
  then show ?thesis by simp
qed

lemma rsplit_key:
  assumes "\<not> sublist '', '' c" "\<not> sublist '', '' st"
  shows "rsplit '', '' 2 (org @ '', '' @ c @ '', '' @ st) = [org, c, st]"
proof -
  have "rsplit '', '' (Suc (Suc 0)) ((org @ '', '' @ c) @ '', '' @ st)
        = rsplit '', '' (Suc 0) (org @ '', '' @ c) @ [st]"
    using assms(2) by (rule rsplit_once)
  also have "rsplit '', '' (Suc 0) (org @ '', '' @ c) = rsplit '', '' 0 org @ [c]"
    using assms(1) by (rule rsplit_once)
  finally show ?thesis by (simp add: numeral_2_eq_2)
qed

lemma sublist_strip: "sublist x (strip s) \<Longrightarrow> sublist x s"
proof -
  have a: "sublist (dropWhile P xs) xs" for P and xs :: string
    by (metis sublist_append_leftI takeWhile_dropWhile_id)
  have "sublist (rev (dropWhile is_space (rev (dropWhile is_space s)))) (rev (rev (dropWhile is_space s)))"
    unfolding sublist_rev by (rule a)
  then have "sublist (strip s) (dropWhile is_space s)" by (simp add: strip_def)
  then have "sublist (strip s) s" using a[of is_space s] by (rule sublist_order.order.trans)
  then show "sublist x (strip s) \<Longrightarrow> sublist x s" by (rule sublist_order.order.trans[rotated])
qed

lemma sublist_upper:
  assumes "sublist '', '' (upper s)"
  shows "sublist '', '' s"
proof -
  from assms obtain ps ss where "map to_upper s = ps @ '', '' @ ss"
    by (auto simp: sublist_def upper_def)
  then obtain ps' r where s: "s = ps' @ r" and r: "map to_upper r = '', '' @ ss"
    by (metis map_eq_append_conv)
  from r obtain a b ss' where r': "r = a # b # ss'" and "to_upper a = CHR '',''" "to_upper b = CHR '' ''"
    by (auto simp: map_eq_Cons_conv)
  then have "a = CHR '',''" "b = CHR '' ''" by (auto dest: to_upper_comma to_upper_blank)
  with s r' have "s = ps' @ '', '' @ ss'" by simp
  then show ?thesis unfolding sublist_def by blast
qed

text \<open>
  C9. When \<open>create_facility_key\<close> yields a key and neither the city nor the state
  contains the separator ", ", \<open>rsplit(', ', 2)\<close> of the key gives back the
  normalized organisation name, the uppercased trimmed city and the uppercased trimmed
  state; the normalized organisation name holds no comma.
\<close>

theorem facility_key_round_trip:
  assumes "create_facility_key org city state = Some k"
    and "\<not> sublist '', '' (py_str city)" and "\<not> sublist '', '' (py_str state)"
  shows "rsplit '', '' 2 k = [normalize_org_name org, upper_strip city, upper_strip state] \<and>
         CHR '','' \<notin> set (normalize_org_name org)"
proof -
  from assms(1) have na: "\<not> isna city" "\<not> isna state"
    and k: "k = normalize_org_name org @ '', '' @ upper_strip city @ '', '' @ upper_strip state"
    by (auto simp: create_facility_key_def Let_def upper_strip_def split: if_splits)
  have c: "\<not> sublist '', '' (upper_strip city)"
    using assms(2) na by (auto simp: upper_strip_def dest!: sublist_strip sublist_upper)
  have s: "\<not> sublist '', '' (upper_strip state)"
    using assms(3) na by (auto simp: upper_strip_def dest!: sublist_strip sublist_upper)
  have "CHR '','' \<notin> set (normalize_org_name org)"
  proof (cases "isna org")
    case True
    then show ?thesis by (simp add: normalize_org_name_def)
  next
    case False
    let ?t = "apply_replacements replacements (strip (upper (py_str org)))"
    have "set (normalize_org_name org) \<subseteq> insert (CHR '' '') (set ?t)"
      using False join_set[of "'' ''" "split_ws ?t"] split_ws_set[of _ ?t]
      by (auto simp: normalize_org_name_def)
    then show ?thesis using apply_replacements_no_punct[of "strip (upper (py_str org))"]
      by auto
  qed
  then show ?thesis unfolding k using rsplit_key[OF c s] by simp
qed

theorem facility_key_round_trip_witness:
  "create_facility_key (Str ''Acme Health, Inc.'') (Str ''Springfield'') (Str ''il'')
     = Some ''ACME HEALTH INC, SPRINGFIELD, IL'' \<and>
   \<not> sublist '', '' ''Springfield'' \<and> \<not> sublist '', '' ''il'' \<and>
   rsplit '', '' 2 ''ACME HEALTH INC, SPRINGFIELD, IL'' = [''ACME HEALTH INC'', ''SPRINGFIELD'', ''IL'']"
proof -
  have k: "create_facility_key (Str ''Acme Health, Inc.'') (Str ''Springfield'') (Str ''il'')
     = Some ''ACME HEALTH INC, SPRINGFIELD, IL''"
    by code_simp
  have c: "\<not> sublist '', '' (py_str (Str ''Springfield''))" by code_simp
  have s: "\<not> sublist '', '' (py_str (Str ''il''))" by code_simp
  have n: "normalize_org_name (Str ''Acme Health, Inc.'') = ''ACME HEALTH INC''" by code_simp
  have uc: "upper_strip (Str ''Springfield'') = ''SPRINGFIELD''" by code_simp
  have us: "upper_strip (Str ''il'') = ''IL''" by code_simp
  from facility_key_round_trip[OF k c s] k c s show ?thesis
    by (simp only: n uc us py_str.simps simp_thms)
qed

section \<open>The facility matcher\<close>

lemma argmax_bound: "xs \<noteq> [] \<Longrightarrow> argmax xs < length xs"
  by (induction xs rule: argmax.induct) (auto simp: Let_def)

lemma argmax_max: "j < length xs \<Longrightarrow> xs ! j \<le> xs ! argmax xs"
proof (induction xs arbitrary: j rule: argmax.induct)
  case 1
  then show ?case by simp
next
  case (2 x)
  then show ?case by simp
next
  case (3 x y ys)
  show ?case
  proof (cases j)
    case 0
    then show ?thesis by (auto simp: Let_def)
  next
    case (Suc j')
    with 3(2) have "j' < length (y # ys)" by simp
    from 3(1)[OF this] have "(y # ys) ! j' \<le> (y # ys) ! argmax (y # ys)" .
    with Suc show ?thesis by (auto simp: Let_def)
  qed
qed

lemma add_facility_ok:
  "buckets_ok ks m \<Longrightarrow> k \<in> ks \<Longrightarrow> buckets_ok ks (add_facility m k)"
proof -
  assume ok: "buckets_ok ks m" and k: "k \<in> ks"
  show ?thesis
  proof (cases "\<exists>org city state. rsplit '', '' 2 k = [org, city, state]")
    case False
    then have "add_facility m k = m"
      by (auto simp: add_facility_def split: list.splits)
    with ok show ?thesis by simp
  next
    case True
    then obtain org city state where r: "rsplit '', '' 2 k = [org, city, state]" by blast
    define loc where "loc = city @ '', '' @ state"
    define old where "old = (case m loc of None \<Rightarrow> [] | Some cs \<Rightarrow> cs)"
    have a: "add_facility m k = m(loc \<mapsto> old @ [\<lparr>key = k, org_name = org\<rparr>])"
      by (simp add: add_facility_def r Let_def loc_def old_def)
    have "\<forall>c\<in>set old. key c \<in> ks"
      using ok by (cases "m loc") (auto simp: old_def buckets_ok_def)
    with ok k show ?thesis unfolding a buckets_ok_def by auto
  qed
qed

lemma foldl_add_facility_ok:
  "buckets_ok ks m \<Longrightarrow> set xs \<subseteq> ks \<Longrightarrow> buckets_ok ks (foldl add_facility m xs)"
  by (induction xs arbitrary: m) (auto simp: add_facility_ok)

lemma facilities_by_location_ok:
  "buckets_ok (fst ` set tbl) (facilities_by_location tbl)"
  unfolding facilities_by_location_def
  by (rule foldl_add_facility_ok) (auto simp: buckets_ok_def)

lemma bucket_lookup:
  assumes "facilities_by_location tbl loc = Some cs" "c \<in> set cs"
  shows "\<exists>info. lookup tbl (key c) = Inr info \<and> map_of tbl (key c) = Some info"
proof -
  from facilities_by_location_ok[of tbl] assms have "key c \<in> fst ` set tbl"
    by (auto simp: buckets_ok_def)
  then obtain info where "map_of tbl (key c) = Some info"
    by (metis domIff dom_map_of_conv_image_fst not_Some_eq)
  then show ?thesis by (simp add: lookup_def)
qed

lemma bucket_nonempty: "facilities_by_location tbl loc = Some cs \<Longrightarrow> cs \<noteq> []"
  using facilities_by_location_ok[of tbl] by (auto simp: buckets_ok_def)

lemma match_facility_total:
  "\<exists>r. match_facility sim tbl thr org city state = Inr r"
proof -
  let ?loc = "strip (upper (py_str city)) @ '', '' @ strip (upper (py_str state))"
  have "\<exists>r. match_in_location sim tbl thr org city state = Inr r"
  proof (cases "facilities_by_location tbl ?loc")
    case None
    then show ?thesis by (simp add: match_in_location_def)
  next
    case (Some cs)
    note ne = bucket_nonempty[OF Some]
    show ?thesis
    proof (cases "find (\<lambda>c. normalize_org_name org = org_name c) cs")
      case None
      let ?scores = "map (sim (normalize_org_name org) (map org_name cs)) [0..<length cs]"
      have "argmax ?scores < length cs" using argmax_bound[of ?scores] ne by simp
      then have "cs ! argmax ?scores \<in> set cs" by simp
      from bucket_lookup[OF Some this] obtain info where
        "lookup tbl (key (cs ! argmax ?scores)) = Inr info" by blast
      with Some None ne show ?thesis by (simp add: match_in_location_def Let_def)
    next
      case (Some c)
      then have "c \<in> set cs" by (auto simp: find_Some_iff)
      from bucket_lookup[OF \<open>facilities_by_location tbl ?loc = Some cs\<close> this]
      obtain info where "lookup tbl (key c) = Inr info" by blast
      with Some \<open>facilities_by_location tbl ?loc = Some cs\<close> show ?thesis
        by (simp add: match_in_location_def Let_def)
    qed
  qed
  then show ?thesis by (auto simp: match_facility_def split: option.splits)
qed

text \<open>
  C2. The tiers are tried in order and the first success wins: when the key built from
  the input is in the table, the result is the exact match with score 1, whatever the
  similarity function says of the other candidates; and when that fails and a candidate
  of the location bucket has the normalized name, the result is the fuzzy-exact match.
\<close>

theorem matcher_tier_order:
  "(create_facility_key org city state = Some k \<and> map_of tbl k = Some info \<longrightarrow>
      match_facility sim tbl thr org city state
        = Inr (Some \<lparr>matched_key = k, match_type = ''exact'', match_score = 1,
                     format_info = info\<rparr>)) \<and>
   ((\<forall>k. create_facility_key org city state = Some k \<longrightarrow> map_of tbl k = None) \<and>
    facilities_by_location tbl
      (strip (upper (py_str city)) @ '', '' @ strip (upper (py_str state))) = Some cands \<and>
    find (\<lambda>c. normalize_org_name org = org_name c) cands = Some c \<and>
    map_of tbl (key c) = Some info' \<longrightarrow>
      match_facility sim tbl thr org city state
        = Inr (Some \<lparr>matched_key = key c, match_type = ''fuzzy_exact'', match_score = 1,
                     format_info = info'\<rparr>))"
  by (auto simp: match_facility_def match_in_location_def lookup_def Let_def
      split: option.splits)

lemma demo_buckets:
  "facilities_by_location demo_table
     (strip (upper (py_str (Str ''Springfield''))) @ '', '' @ strip (upper (py_str (Str ''IL''))))
     = Some [\<lparr>key = ''ACME HEALTH, SPRINGFIELD, IL'', org_name = ''ACME HEALTH''\<rparr>,
             \<lparr>key = ''ACME HEALTH CENTER, SPRINGFIELD, IL'', org_name = ''ACME HEALTH CENTER''\<rparr>]"
  by code_simp

theorem matcher_tier_order_witness:
  "match_facility (\<lambda>q names i. if i = 1 then 1 else 1 / 2) demo_table (85 / 100)
     (Str ''Acme Health'') (Str ''Springfield'') (Str ''IL'')
     = Inr (Some \<lparr>matched_key = ''ACME HEALTH, SPRINGFIELD, IL'', match_type = ''exact'',
                  match_score = 1, format_info = demo_format\<rparr>) \<and>
   match_facility (\<lambda>q names i. 0) [(''ACME, NAN, IL'', demo_format)] (85 / 100)
     (Str ''Acme'') NaN (Str ''IL'')
     = Inr (Some \<lparr>matched_key = ''ACME, NAN, IL'', match_type = ''fuzzy_exact'',
                  match_score = 1, format_info = demo_format\<rparr>)"
proof -
  have k: "create_facility_key (Str ''Acme Health'') (Str ''Springfield'') (Str ''IL'')
             = Some ''ACME HEALTH, SPRINGFIELD, IL''"
    by code_simp
  have t: "map_of demo_table ''ACME HEALTH, SPRINGFIELD, IL'' = Some demo_format"
    by (simp add: demo_table_def)
  have k2: "\<forall>k. create_facility_key (Str ''Acme'') NaN (Str ''IL'') = Some k \<longrightarrow>
              map_of [(''ACME, NAN, IL'', demo_format)] k = None"
    by (simp add: create_facility_key_def upper_strip_def Let_def)
  have b2: "facilities_by_location [(''ACME, NAN, IL'', demo_format)]
              (strip (upper (py_str NaN)) @ '', '' @ strip (upper (py_str (Str ''IL''))))
            = Some [\<lparr>key = ''ACME, NAN, IL'', org_name = ''ACME''\<rparr>]"
    by code_simp
  have f2: "find (\<lambda>c. normalize_org_name (Str ''Acme'') = org_name c)
              [\<lparr>key = ''ACME, NAN, IL'', org_name = ''ACME''\<rparr>]
            = Some \<lparr>key = ''ACME, NAN, IL'', org_name = ''ACME''\<rparr>"
    by code_simp
  have t2: "map_of [(''ACME, NAN, IL'', demo_format)]
              (key \<lparr>key = ''ACME, NAN, IL'', org_name = ''ACME''\<rparr>) = Some demo_format"
    by simp
  from matcher_tier_order[where org = "Str ''Acme Health''" and city = "Str ''Springfield''"
      and state = "Str ''IL''" and k = "''ACME HEALTH, SPRINGFIELD, IL''" and tbl = demo_table
      and info = demo_format and thr = "85 / 100"
      and sim = "\<lambda>q names i. if i = 1 then 1 else 1 / 2"] k t
  have 1: "match_facility (\<lambda>q names i. if i = 1 then 1 else 1 / 2) demo_table (85 / 100)
     (Str ''Acme Health'') (Str ''Springfield'') (Str ''IL'')
     = Inr (Some \<lparr>matched_key = ''ACME HEALTH, SPRINGFIELD, IL'', match_type = ''exact'',
                  match_score = 1, format_info = demo_format\<rparr>)"
    by blast
  from matcher_tier_order[where org = "Str ''Acme''" and city = NaN and state = "Str ''IL''"
      and tbl = "[(''ACME, NAN, IL'', demo_format)]" and info' = demo_format
      and thr = "85 / 100" and sim = "\<lambda>q names i. 0"
      and cands = "[\<lparr>key = ''ACME, NAN, IL'', org_name = ''ACME''\<rparr>]"
      and c = "\<lparr>key = ''ACME, NAN, IL'', org_name = ''ACME''\<rparr>"] k2 b2 f2 t2
  have 2: "match_facility (\<lambda>q names i. 0) [(''ACME, NAN, IL'', demo_format)] (85 / 100)
     (Str ''Acme'') NaN (Str ''IL'')
     = Inr (Some \<lparr>matched_key = ''ACME, NAN, IL'', match_type = ''fuzzy_exact'',
                  match_score = 1, format_info = demo_format\<rparr>)"
    by simp
  from 1 2 show ?thesis by blast
qed

text \<open>
  C6. When the exact lookup fails, the location has a bucket and no candidate of it has
  the normalized name, the matcher takes the candidate of maximal similarity (the first
  one, on a tie) and returns it, with type tfidf and its score, exactly when the score
  is at least the threshold; below the threshold it returns nothing.
\<close>

theorem similarity_threshold:
  assumes tier1: "\<forall>k. create_facility_key org city state = Some k \<longrightarrow> map_of tbl k = None"
    and bucket: "facilities_by_location tbl
        (strip (upper (py_str city)) @ '', '' @ strip (upper (py_str state))) = Some cands"
    and tier2: "\<forall>c\<in>set cands. org_name c \<noteq> normalize_org_name org"
    and scores: "scores = map (sim (normalize_org_name org) (map org_name cands))
                             [0..<length cands]"
    and best: "best = argmax scores"
  shows "best < length cands \<and> (\<forall>j<length cands. scores ! j \<le> scores ! best) \<and>
    (thr \<le> scores ! best \<longrightarrow>
       (\<exists>info. map_of tbl (key (cands ! best)) = Some info \<and>
          match_facility sim tbl thr org city state
            = Inr (Some \<lparr>matched_key = key (cands ! best), match_type = ''tfidf'',
                         match_score = scores ! best, format_info = info\<rparr>))) \<and>
    (scores ! best < thr \<longrightarrow> match_facility sim tbl thr org city state = Inr None)"
proof -
  have ne: "cands \<noteq> []" using bucket by (rule bucket_nonempty)
  then have len: "length scores = length cands" and sne: "scores \<noteq> []"
    by (simp_all add: scores)
  have b: "best < length cands" using argmax_bound[OF sne] len best by simp
  have m: "\<forall>j<length cands. scores ! j \<le> scores ! best"
    using argmax_max[of _ scores] len best by simp
  have f: "find (\<lambda>c. normalize_org_name org = org_name c) cands = None"
    using tier2 by (auto simp: find_None_iff)
  have rest: "match_facility sim tbl thr org city state
                = match_in_location sim tbl thr org city state"
    using tier1 by (auto simp: match_facility_def split: option.splits)
  from b have "cands ! best \<in> set cands" by simp
  from bucket_lookup[OF bucket this] obtain info where
    info: "lookup tbl (key (cands ! best)) = Inr info" "map_of tbl (key (cands ! best)) = Some info"
    by blast
  have hit: "thr \<le> scores ! best \<Longrightarrow> match_in_location sim tbl thr org city state
      = Inr (Some \<lparr>matched_key = key (cands ! best), match_type = ''tfidf'',
                   match_score = scores ! best, format_info = info\<rparr>)"
    using bucket f ne info(1) by (simp add: match_in_location_def Let_def scores best)
  have miss: "scores ! best < thr \<Longrightarrow> match_in_location sim tbl thr org city state = Inr None"
    using bucket f ne by (simp add: match_in_location_def Let_def scores best)
  show ?thesis using b m hit miss info(2) rest by auto
qed

theorem similarity_threshold_witness:
  "match_facility (\<lambda>q names i. if i = 0 then 85 / 100 else 6 / 10) demo_table (85 / 100)
     (Str ''Acme Healthcare'') (Str ''Springfield'') (Str ''IL'')
     = Inr (Some \<lparr>matched_key = ''ACME HEALTH, SPRINGFIELD, IL'', match_type = ''tfidf'',
                  match_score = 85 / 100, format_info = demo_format\<rparr>) \<and>
   match_facility (\<lambda>q names i. if i = 0 then 849999 / 1000000 else 6 / 10) demo_table (85 / 100)
     (Str ''Acme Healthcare'') (Str ''Springfield'') (Str ''IL'')
     = Inr None"
proof -
  let ?cands = "[\<lparr>key = ''ACME HEALTH, SPRINGFIELD, IL'', org_name = ''ACME HEALTH''\<rparr>,
             \<lparr>key = ''ACME HEALTH CENTER, SPRINGFIELD, IL'', org_name = ''ACME HEALTH CENTER''\<rparr>]"
  have k: "create_facility_key (Str ''Acme Healthcare'') (Str ''Springfield'') (Str ''IL'')
             = Some ''ACME HEALTHCARE, SPRINGFIELD, IL''"
    by code_simp
  have t1: "\<forall>k. create_facility_key (Str ''Acme Healthcare'') (Str ''Springfield'') (Str ''IL'')
             = Some k \<longrightarrow> map_of demo_table k = None"
    by (simp add: k demo_table_def)
  have n: "normalize_org_name (Str ''Acme Healthcare'') = ''ACME HEALTHCARE''" by code_simp
  have t2: "\<forall>c\<in>set ?cands. org_name c \<noteq> normalize_org_name (Str ''Acme Healthcare'')"
    by (simp add: n)
  have s1: "[85 / 100, 6 / 10 :: real]
      = map ((\<lambda>q names i. if i = 0 then 85 / 100 else 6 / 10)
               (normalize_org_name (Str ''Acme Healthcare'')) (map org_name ?cands))
            [0..<length ?cands]"
    by (simp add: upt_rec)
  have s2: "[849999 / 1000000, 6 / 10 :: real]
      = map ((\<lambda>q names i. if i = 0 then 849999 / 1000000 else 6 / 10)
               (normalize_org_name (Str ''Acme Healthcare'')) (map org_name ?cands))
            [0..<length ?cands]"
    by (simp add: upt_rec)
  have b1: "0 = argmax [85 / 100, 6 / 10 :: real]" by simp
  have b2: "0 = argmax [849999 / 1000000, 6 / 10 :: real]" by simp
  have m: "map_of demo_table ''ACME HEALTH, SPRINGFIELD, IL'' = Some demo_format"
    by (simp add: demo_table_def)
  from similarity_threshold[OF t1 demo_buckets t2 s1 b1, of "85 / 100"] m
  have 1: "match_facility (\<lambda>q names i. if i = 0 then 85 / 100 else 6 / 10) demo_table (85 / 100)
     (Str ''Acme Healthcare'') (Str ''Springfield'') (Str ''IL'')
     = Inr (Some \<lparr>matched_key = ''ACME HEALTH, SPRINGFIELD, IL'', match_type = ''tfidf'',
                  match_score = 85 / 100, format_info = demo_format\<rparr>)"
    by simp
  from similarity_threshold[OF t1 demo_buckets t2 s2 b2, of "85 / 100"]
  have 2: "match_facility (\<lambda>q names i. if i = 0 then 849999 / 1000000 else 6 / 10) demo_table (85 / 100)
     (Str ''Acme Healthcare'') (Str ''Springfield'') (Str ''IL'')
     = Inr None"
    by simp
  from 1 2 show ?thesis by blast
qed

section \<open>Annotating a provider record\<close>

text \<open>
  C10. The annotation is all-or-nothing by stage. When matching returns nothing, the six
  match and email fields of the result are all empty and only the facility key may be
  set. When the record has a facility key (so that matching is attempted), matching
  succeeds and email generation returns nothing, the three match fields are set and the
  three email fields stay empty.
\<close>

theorem annotation_by_stage:
  "(match_facility sim tbl thr (organization_name row) (city_name row) (state_name row)
      = Inr None \<longrightarrow>
    process_single_record sim (i, row) tbl thr
      = Inr \<lparr>idx = i,
             facility_key = create_facility_key (organization_name row) (city_name row)
                              (state_name row),
             matched_facility = None, match_type = None, match_score = None,
             generated_email = None, email_format_used = None, email_domain = None\<rparr>) \<and>
   (create_facility_key (organization_name row) (city_name row) (state_name row) = Some k \<and>
    match_facility sim tbl thr (organization_name row) (city_name row) (state_name row)
      = Inr (Some m) \<and>
    generate_email (official_first_name row) (official_last_name row)
      (format (format_info m)) (domain (format_info m)) = None \<longrightarrow>
    process_single_record sim (i, row) tbl thr
      = Inr \<lparr>idx = i, facility_key = Some k,
             matched_facility = Some (matched_key m),
             match_type = Some (match_result.match_type m),
             match_score = Some (match_result.match_score m),
             generated_email = None, email_format_used = None, email_domain = None\<rparr>)"
  by (auto simp: process_single_record_def Let_def)

theorem annotation_by_stage_witness:
  "process_single_record (\<lambda>q names i. 0) (7, \<lparr>organization_name = Str ''Acme Health'',
       city_name = Str ''Springfield'', state_name = Str ''IL'',
       official_first_name = Str ''Jane'', official_last_name = Str ''Doe''\<rparr>) [] (85 / 100)
     = Inr \<lparr>idx = 7, facility_key = Some ''ACME HEALTH, SPRINGFIELD, IL'',
            matched_facility = None, match_type = None, match_score = None,
            generated_email = None, email_format_used = None, email_domain = None\<rparr> \<and>
   process_single_record (\<lambda>q names i. 0) (7, \<lparr>organization_name = Str ''Acme Health'',
       city_name = Str ''Springfield'', state_name = Str ''IL'',
       official_first_name = Str ''2024'', official_last_name = Str ''Doe''\<rparr>)
       demo_table (85 / 100)
     = Inr \<lparr>idx = 7, facility_key = Some ''ACME HEALTH, SPRINGFIELD, IL'',
            matched_facility = Some ''ACME HEALTH, SPRINGFIELD, IL'',
            match_type = Some ''exact'', match_score = Some 1,
            generated_email = None, email_format_used = None, email_domain = None\<rparr>"
proof -
  let ?row1 = "\<lparr>organization_name = Str ''Acme Health'',
       city_name = Str ''Springfield'', state_name = Str ''IL'',
       official_first_name = Str ''Jane'', official_last_name = Str ''Doe''\<rparr>"
  let ?row2 = "\<lparr>organization_name = Str ''Acme Health'',
       city_name = Str ''Springfield'', state_name = Str ''IL'',
       official_first_name = Str ''2024'', official_last_name = Str ''Doe''\<rparr>"
  let ?m = "\<lparr>matched_key = ''ACME HEALTH, SPRINGFIELD, IL'', match_type = ''exact'',
             match_score = 1, format_info = demo_format\<rparr>"
  have k: "create_facility_key (Str ''Acme Health'') (Str ''Springfield'') (Str ''IL'')
             = Some ''ACME HEALTH, SPRINGFIELD, IL''"
    by code_simp
  have loc: "strip (upper ''Springfield'') @ '', '' @ strip (upper ''IL'') = ''SPRINGFIELD, IL''"
    by code_simp
  have m1: "match_facility (\<lambda>q names i. 0) [] (85 / 100) (organization_name ?row1)
              (city_name ?row1) (state_name ?row1) = Inr None"
    by (simp add: match_facility_def k match_in_location_def facilities_by_location_def loc)
  have m2: "match_facility (\<lambda>q names i. 0) demo_table (85 / 100) (organization_name ?row2)
              (city_name ?row2) (state_name ?row2) = Inr (Some ?m)"
    by (simp add: match_facility_def k demo_table_def)
  have g: "generate_email (official_first_name ?row2) (official_last_name ?row2)
             (format (format_info ?m)) (domain (format_info ?m)) = None"
    by (simp add: demo_format_def) code_simp
  have k2: "create_facility_key (organization_name ?row2) (city_name ?row2) (state_name ?row2)
             = Some ''ACME HEALTH, SPRINGFIELD, IL''"
    using k by simp
  from annotation_by_stage[of "\<lambda>q names i. 0" "[]" "85 / 100" ?row1 7] m1 k
  have 1: "process_single_record (\<lambda>q names i. 0) (7, ?row1) [] (85 / 100)
     = Inr \<lparr>idx = 7, facility_key = Some ''ACME HEALTH, SPRINGFIELD, IL'',
            matched_facility = None, match_type = None, match_score = None,
            generated_email = None, email_format_used = None, email_domain = None\<rparr>"
    by simp
  from annotation_by_stage[of "\<lambda>q names i. 0" demo_table "85 / 100" ?row2 7
      "''ACME HEALTH, SPRINGFIELD, IL''" ?m] m2 k2 g
  have 2: "process_single_record (\<lambda>q names i. 0) (7, ?row2) demo_table (85 / 100)
     = Inr \<lparr>idx = 7, facility_key = Some ''ACME HEALTH, SPRINGFIELD, IL'',
            matched_facility = Some ''ACME HEALTH, SPRINGFIELD, IL'',
            match_type = Some ''exact'', match_score = Some 1,
            generated_email = None, email_format_used = None, email_domain = None\<rparr>"
    by simp
  from 1 2 show ?thesis by blast
qed

section \<open>Properties of the matcher\<close>

lemma matches_caps:
  "uniform r \<Longrightarrow> (p', s', caps') \<in> set (matches r (p, s, caps)) \<Longrightarrow>
   length caps' = length caps + ngroups r"
proof (induction r arbitrary: p s caps p' s' caps')
  case (Sym P)
  then show ?case by (auto split: list.splits if_splits)
next
  case (Rep P n)
  then show ?case by (auto simp: advance_def)
next
  case (Seq r1 r2)
  from Seq.prems(2) obtain st where st: "st \<in> set (matches r1 (p, s, caps))"
    and 2: "(p', s', caps') \<in> set (matches r2 st)" by auto
  obtain p1 s1 c1 where st': "st = (p1, s1, c1)" by (cases st)
  from Seq.IH(1)[of p1 s1 c1 p s caps] Seq.prems(1) st st'
  have "length c1 = length caps + ngroups r1" by simp
  moreover from Seq.IH(2)[of p' s' caps' p1 s1 c1] Seq.prems(1) 2 st'
  have "length caps' = length c1 + ngroups r2" by simp
  ultimately show ?case by simp
next
  case (Alt r1 r2)
  then show ?case by auto
next
  case (Opt r)
  then show ?case by auto
next
  case (Grp r)
  then show ?case by auto
next
  case Bnd
  then show ?case by (auto split: if_splits)
next
  case Eps
  then show ?case by simp
qed

lemma search_from_sound:
  "search_from r p s = Some caps \<Longrightarrow> \<exists>pre rest. s = pre @ rest \<and> match_at r rest caps"
proof (induction s arbitrary: p)
  case Nil
  note found = Nil
  show ?case
  proof (cases "matches r (p, [], [])")
    case Nil
    with found show ?thesis by simp
  next
    case (Cons st sts)
    obtain q' s' caps' where st: "st = (q', s', caps')" by (cases st)
    from found Cons st have "caps' = caps" by simp
    with Cons st have "(q', s', caps) \<in> set (matches r (p, [], []))" by simp
    then have "match_at r [] caps" unfolding match_at_def by (intro exI)
    then show ?thesis by simp
  qed
next
  case (Cons c cs)
  note IH = Cons.IH and found = Cons.prems
  show ?case
  proof (cases "matches r (p, c # cs, [])")
    case Nil
    with found have "search_from r (Some c) cs = Some caps" by simp
    from IH[OF this] obtain pre rest where a: "cs = pre @ rest"
      and b: "match_at r rest caps" by (elim exE conjE)
    note b' = b
    from a have "c # cs = (c # pre) @ rest" by simp
    with b' show ?thesis by (intro exI conjI)
  next
    case (Cons st sts)
    obtain q' s' caps' where st: "st = (q', s', caps')" by (cases st)
    from found Cons st have "caps' = caps" by simp
    with Cons st have "(q', s', caps) \<in> set (matches r (p, c # cs, []))" by simp
    then have "match_at r (c # cs) caps" unfolding match_at_def by (intro exI)
    moreover have "c # cs = [] @ (c # cs)" by simp
    ultimately show ?thesis by (intro exI conjI)
  qed
qed

lemma search_ngroups:
  assumes "uniform r" "search r text = Some caps"
  shows "length caps = ngroups r"
proof -
  from search_from_sound[OF assms(2)[unfolded search_def]] obtain pre rest
    where "match_at r rest caps" by (elim exE conjE)
  then obtain q q' s' where "(q', s', caps) \<in> set (matches r (q, rest, []))"
    unfolding match_at_def by (elim exE)
  with assms(1) have "length caps = length ([]::string list) + ngroups r"
    by (rule matches_caps)
  then show ?thesis by simp
qed

lemma hd_matches_caps:
  assumes "uniform r" "matches r (p, s, []) = (q', s', caps') # sts"
  shows "length caps' = ngroups r"
proof -
  from assms(2) have "(q', s', caps') \<in> set (matches r (p, s, []))" by simp
  with assms(1) have "length caps' = length ([]::string list) + ngroups r"
    by (rule matches_caps)
  then show ?thesis by simp
qed

lemma finditer_from_ngroups:
  "uniform r \<Longrightarrow> caps \<in> set (finditer_from r skip p s) \<Longrightarrow> length caps = ngroups r"
proof (induction s arbitrary: skip p)
  case Nil
  note u = Nil(1) and mem = Nil(2)
  show ?case
  proof (cases "matches r (p, [], [])")
    case Nil
    with mem show ?thesis by (cases "skip = 0") simp_all
  next
    case (Cons st sts)
    obtain q' s' caps' where st: "st = (q', s', caps')" by (cases st)
    from mem Cons st have "caps = caps'"
      by (cases "skip = 0") simp_all
    with hd_matches_caps[OF u Cons[unfolded st]] show ?thesis by simp
  qed
next
  case (Cons c cs)
  note IH = Cons.IH and u = Cons.prems(1) and mem = Cons.prems(2)
  show ?case
  proof (cases "0 < skip")
    case True
    with mem have "caps \<in> set (finditer_from r (skip - 1) (Some c) cs)" by simp
    with u show ?thesis by (rule IH)
  next
    case False
    show ?thesis
    proof (cases "matches r (p, c # cs, [])")
      case Nil
      with mem False have "caps \<in> set (finditer_from r 0 (Some c) cs)" by simp
      with u show ?thesis by (rule IH)
    next
      case (Cons st sts)
      obtain q' s' caps' where st: "st = (q', s', caps')" by (cases st)
      have a: "length caps' = ngroups r"
        using hd_matches_caps[OF u Cons[unfolded st]] .
      from mem False Cons st
      have "caps = caps' \<or> caps \<in> set (finditer_from r (length cs - length s') (Some c) cs)"
        by simp
      then show ?thesis
      proof
        assume "caps = caps'"
        with a show ?thesis by simp
      next
        assume "caps \<in> set (finditer_from r (length cs - length s') (Some c) cs)"
        with u show ?thesis by (rule IH)
      qed
    qed
  qed
qed

section \<open>The extractor\<close>



lemma numbered_loop_length: "length (numbered_loop ps t src) \<le> 1"
  by (induction ps t src rule: numbered_loop.induct)
     (auto simp: Let_def split: option.splits)


lemma fallback_loop_medium: "c \<in> set (fallback_loop ms src) \<Longrightarrow> confidence c = ''medium''"
  by (induction ms src rule: fallback_loop.induct)
     (auto simp: candidate_format_def Let_def split: option.splits list.splits)

lemma fallback_loop_length: "length (fallback_loop ms src) \<le> 1"
  by (induction ms src rule: fallback_loop.induct)
     (auto simp: Let_def split: option.splits list.splits)

lemma fallback_loop_skip:
  "\<forall>m\<in>set ms. \<forall>l d. m = [l, d] \<longrightarrow> infer_format_from_local_part (lower l) = None \<Longrightarrow>
   \<forall>m\<in>set ms. length m = 2 \<Longrightarrow>
   fallback_loop (ms @ rest) src = fallback_loop rest src"
proof (induction ms)
  case Nil
  then show ?case by simp
next
  case (Cons m ms)
  from Cons.prems(2) have "length m = 2" by simp
  then obtain l d where m: "m = [l, d]"
    by (auto simp: length_Suc_conv numeral_2_eq_2)
  with Cons.prems(1) have "infer_format_from_local_part (lower l) = None" by simp
  with m Cons show ?case by simp
qed

subsection \<open>The example snippets, evaluated\<close>

lemma ranked_bracket: "bracket_group ranked_snippet src = []"
  by code_simp

lemma ranked_numbered:
  "numbered_group ranked_snippet src
     = [candidate_format ''[first_initial][last]'' ''acme.com'' ''jdoe@acme.com'' src ''high'']"
  by code_simp

lemma ranked_leadiq: "leadiq_group ranked_snippet src = []"
  by code_simp

lemma eleven_bracket: "bracket_group rank_eleven_snippet src = []"
  by code_simp

lemma eleven_numbered:
  "numbered_group rank_eleven_snippet src
     = [candidate_format ''[first].[last]'' ''acme.com'' ''jane.doe@acme.com'' src ''high'']"
  by code_simp

lemma eleven_leadiq: "leadiq_group rank_eleven_snippet src = []"
  by code_simp




lemma two_bracket: "bracket_group two_addresses src = []"
  by code_simp

lemma two_numbered: "numbered_group two_addresses src = []"
  by code_simp

lemma two_leadiq: "leadiq_group two_addresses src = []"
  by code_simp

lemma two_finditer:
  "finditer email_pattern two_addresses = [[''ab'', ''x.com''], [''jane.doe'', ''acme.com'']]"
  by code_simp

lemma infer_ab: "infer_format_from_local_part (lower ''ab'') = None"
  by code_simp

lemma infer_jane_doe: "infer_format_from_local_part (lower ''jane.doe'') = Some ''[first].[last]''"
  by code_simp

lemma email_pattern_groups: "uniform email_pattern \<and> ngroups email_pattern = 2"
  by (simp add: email_pattern_def seq_def)

lemma finditer_email_pairs: "m \<in> set (finditer email_pattern t) \<Longrightarrow> length m = 2"
  unfolding finditer_def using finditer_from_ngroups[of email_pattern m 0 None t]
  by (simp add: email_pattern_groups)




lemma ranked_extract:
  "extract_formats_from_text_improved ranked_snippet src
     = [candidate_format ''[first_initial][last]'' ''acme.com'' ''jdoe@acme.com'' src ''high'']"
  by (simp add: extract_formats_from_text_improved_def ranked_bracket ranked_numbered
      ranked_leadiq)

text \<open>
  C4. The claim holds on its own example: for the snippet with jdoe@acme.com ranked 1 and
  jane.doe@acme.com ranked 2 the extractor returns the single candidate
  [first_initial][last]. It fails when a later rank ends in 1: the numbered patterns
  begin with \<open>1\.\<close> and nothing before it, so they also match inside "11.". With
  jane.doe@acme.com ranked 11 the dotted pattern, tried first, matches there, and the
  numbered group and the extractor return [first].[last] taken from the entry of rank 11
  instead of [first_initial][last] from the entry of rank 1.
\<close>

theorem numbered_reads_rank_eleven:
  "extract_formats_from_text_improved ranked_snippet ''''
     = [candidate_format ''[first_initial][last]'' ''acme.com'' ''jdoe@acme.com'' '''' ''high''] \<and>
   numbered_group rank_eleven_snippet ''''
     = [candidate_format ''[first].[last]'' ''acme.com'' ''jane.doe@acme.com'' '''' ''high''] \<and>
   extract_formats_from_text_improved rank_eleven_snippet ''''
     = [candidate_format ''[first].[last]'' ''acme.com'' ''jane.doe@acme.com'' '''' ''high'']"
proof -
  have e: "extract_formats_from_text_improved rank_eleven_snippet ''''
     = [candidate_format ''[first].[last]'' ''acme.com'' ''jane.doe@acme.com'' '''' ''high'']"
    by (simp add: extract_formats_from_text_improved_def eleven_bracket eleven_numbered
        eleven_leadiq)
  from ranked_extract[of "''''"] eleven_numbered[of "''''"] e show ?thesis by (intro conjI)
qed

text \<open>
  C5, as the code has it. When groups 1 to 3 give nothing, the returned list has at most
  one candidate, of confidence medium, and it is derived from the first address, in text
  order, whose local part has an inferable format: addresses before it whose format
  cannot be inferred are passed over. When no address has an inferable format the list
  is empty.
\<close>

theorem fallback_first_inferable:
  assumes "bracket_group t src @ numbered_group t src @ leadiq_group t src = []"
  shows "length (extract_formats_from_text_improved t src) \<le> 1 \<and>
    (\<forall>c\<in>set (extract_formats_from_text_improved t src). confidence c = ''medium'') \<and>
    (finditer email_pattern t = ms @ [l, d] # rest \<and>
     (\<forall>m\<in>set ms. \<forall>l' d'. m = [l', d'] \<longrightarrow> infer_format_from_local_part (lower l') = None) \<and>
     infer_format_from_local_part (lower l) = Some f \<longrightarrow>
       extract_formats_from_text_improved t src
         = [candidate_format f (lower d) (lower l @ ''@'' @ lower d) src ''medium'']) \<and>
    ((\<forall>m\<in>set (finditer email_pattern t). \<forall>l' d'. m = [l', d'] \<longrightarrow>
         infer_format_from_local_part (lower l') = None) \<longrightarrow>
       extract_formats_from_text_improved t src = [])"
proof -
  have e: "extract_formats_from_text_improved t src
             = fallback_loop (finditer email_pattern t) src"
    using assms by (simp add: extract_formats_from_text_improved_def fallback_group_def)
  have 1: "length (extract_formats_from_text_improved t src) \<le> 1"
    unfolding e by (rule fallback_loop_length)
  have 2: "\<forall>c\<in>set (extract_formats_from_text_improved t src). confidence c = ''medium''"
    unfolding e using fallback_loop_medium by blast
  have 3: "extract_formats_from_text_improved t src
         = [candidate_format f (lower d) (lower l @ ''@'' @ lower d) src ''medium'']"
    if f: "finditer email_pattern t = ms @ [l, d] # rest"
      and s: "\<forall>m\<in>set ms. \<forall>l' d'. m = [l', d'] \<longrightarrow> infer_format_from_local_part (lower l') = None"
      and i: "infer_format_from_local_part (lower l) = Some f"
  proof -
    have "\<forall>m\<in>set ms. length m = 2"
      using finditer_email_pairs[of _ t] f by simp
    with s have "fallback_loop (ms @ [l, d] # rest) src = fallback_loop ([l, d] # rest) src"
      by (rule fallback_loop_skip)
    with i show ?thesis unfolding e f by (simp add: Let_def)
  qed
  have 4: "extract_formats_from_text_improved t src = []"
    if s: "\<forall>m\<in>set (finditer email_pattern t). \<forall>l' d'. m = [l', d'] \<longrightarrow>
         infer_format_from_local_part (lower l') = None"
  proof -
    have "\<forall>m\<in>set (finditer email_pattern t). length m = 2"
      using finditer_email_pairs[of _ t] by simp
    with s have "fallback_loop (finditer email_pattern t @ []) src = fallback_loop [] src"
      by (rule fallback_loop_skip)
    then show ?thesis unfolding e by simp
  qed
  from 1 2 3 4 show ?thesis by blast
qed

text \<open>
  C5 as stated fails: in "ab@x.com jane.doe@acme.com" the first address is ab@x.com,
  whose format cannot be inferred, and the candidate comes from the second address.
\<close>

theorem fallback_skips_first_address:
  "bracket_group two_addresses '''' @ numbered_group two_addresses ''''
     @ leadiq_group two_addresses '''' = [] \<and>
   hd (finditer email_pattern two_addresses) = [''ab'', ''x.com''] \<and>
   extract_formats_from_text_improved two_addresses ''''
     = [candidate_format ''[first].[last]'' ''acme.com'' ''jane.doe@acme.com'' '''' ''medium'']"
proof -
  have l1: "lower ''jane.doe'' = ''jane.doe''" by code_simp
  have l2: "lower ''acme.com'' = ''acme.com''" by code_simp
  have i1: "infer_format_from_local_part ''jane.doe'' = Some ''[first].[last]''"
    using infer_jane_doe by (simp only: l1)
  show ?thesis
    by (simp add: extract_formats_from_text_improved_def two_bracket two_numbered two_leadiq
        fallback_group_def two_finditer infer_ab l1 l2 i1 Let_def)
qed

theorem fallback_first_inferable_witness:
  "bracket_group two_addresses '''' @ numbered_group two_addresses ''''
     @ leadiq_group two_addresses '''' = [] \<and>
   finditer email_pattern two_addresses = [[''ab'', ''x.com''], [''jane.doe'', ''acme.com'']] \<and>
   infer_format_from_local_part (lower ''ab'') = None \<and>
   infer_format_from_local_part (lower ''jane.doe'') = Some ''[first].[last]'' \<and>
   extract_formats_from_text_improved two_addresses ''''
     = [candidate_format ''[first].[last]'' (lower ''acme.com'')
          (lower ''jane.doe'' @ ''@'' @ lower ''acme.com'') '''' ''medium'']"
proof -
  have e: "bracket_group two_addresses '''' @ numbered_group two_addresses ''''
     @ leadiq_group two_addresses '''' = []"
    by (simp add: two_bracket two_numbered two_leadiq)
  have f: "finditer email_pattern two_addresses
             = [[''ab'', ''x.com'']] @ [''jane.doe'', ''acme.com''] # []"
    by (simp add: two_finditer)
  have s: "\<forall>m\<in>set [[''ab'', ''x.com'']]. \<forall>l' d'. m = [l', d'] \<longrightarrow>
       infer_format_from_local_part (lower l') = None"
    by (simp add: infer_ab)
  from fallback_first_inferable[OF e, of "[[''ab'', ''x.com'']]" "''jane.doe''" "''acme.com''" "[]"
      "''[first].[last]''"] f s infer_jane_doe
  have "extract_formats_from_text_improved two_addresses ''''
     = [candidate_format ''[first].[last]'' (lower ''acme.com'')
          (lower ''jane.doe'' @ ''@'' @ lower ''acme.com'') '''' ''medium'']"
    by blast
  with e two_finditer infer_ab infer_jane_doe show ?thesis by (intro conjI)
qed

section \<open>The source prioritizer\<close>

lemma organic_priority_bound: "organic_priority position lnk \<le> 90"
  by (simp add: organic_priority_def source_priority_def)

lemma organic_loop_none:
  "\<forall>r\<in>set rs. extract_formats_from_text_improved (snippet r) (link r) = [] \<Longrightarrow>
   organic_loop pos rs best = best"
  by (induction pos rs best rule: organic_loop.induct) (auto simp: Let_def)

lemma best_match_answer_box:
  assumes "answerBox sr = Some box"
    and "extract_formats_from_text_improved (snippet box) (link box) = f # fs"
  shows "best_match_of sr = Some (f\<lparr>source_type := Some ''answerBox''\<rparr>)"
  using assms by (simp add: best_match_of_def answer_box_match_def)

lemma best_match_none:
  assumes "no_extraction \<lparr>facility = fac, results = Some sr\<rparr>"
  shows "best_match_of sr = None"
proof -
  from assms have a: "answer_box_match sr = (None, 0)"
    by (auto simp: no_extraction_def answer_box_match_def split: option.splits)
  from assms have "\<forall>r\<in>set (organic sr).
      extract_formats_from_text_improved (snippet r) (link r) = []"
    by (simp add: no_extraction_def)
  then have "organic_loop 0 (organic sr) (None, 0) = (None, 0)" by (rule organic_loop_none)
  with a show ?thesis by (simp add: best_match_of_def)
qed

lemma process_entry_no_extraction:
  "no_extraction e \<Longrightarrow> process_entry tbl e = tbl"
proof -
  assume n: "no_extraction e"
  show ?thesis
  proof (cases "results e")
    case None
    then show ?thesis by (simp add: process_entry_def)
  next
    case (Some sr)
    have "e = \<lparr>facility = facility e, results = Some sr\<rparr>" using Some by simp
    with n have "no_extraction \<lparr>facility = facility e, results = Some sr\<rparr>" by simp
    then have "best_match_of sr = None" by (rule best_match_none)
    with Some show ?thesis by (simp add: process_entry_def)
  qed
qed

lemma process_entry_other: "facility e \<noteq> fac \<Longrightarrow> process_entry tbl e fac = tbl fac"
  by (simp add: process_entry_def split: option.splits)

lemma foldl_process_entry_absent:
  "tbl fac = None \<Longrightarrow> \<forall>e\<in>set es. facility e = fac \<longrightarrow> no_extraction e \<Longrightarrow>
   foldl process_entry tbl es fac = None"
proof (induction es arbitrary: tbl)
  case Nil
  then show ?case by simp
next
  case (Cons e es)
  have "process_entry tbl e fac = None"
  proof (cases "facility e = fac")
    case True
    with Cons.prems have "no_extraction e" by simp
    then show ?thesis using Cons.prems(1) by (simp add: process_entry_no_extraction)
  next
    case False
    then show ?thesis using Cons.prems(1) by (simp add: process_entry_other)
  qed
  then have "foldl process_entry (process_entry tbl e) es fac = None"
    using Cons.prems(2) by (intro Cons.IH) auto
  then show ?case by simp
qed

lemma foldl_process_entry_keep:
  "\<forall>e\<in>set es. facility e \<noteq> fac \<Longrightarrow> foldl process_entry tbl es fac = tbl fac"
  by (induction es arbitrary: tbl) (auto simp: process_entry_other)

lemma foldl_process_entry_answer_box:
  assumes "e \<in> set es" "distinct (map facility es)"
    and "results e = Some sr" "answerBox sr = Some box"
    and "extract_formats_from_text_improved (snippet box) (link box) = f # fs"
  shows "foldl process_entry tbl es (facility e) = Some (f\<lparr>source_type := Some ''answerBox''\<rparr>)"
  using assms(1,2)
proof (induction es arbitrary: tbl)
  case Nil
  then show ?case by simp
next
  case (Cons a es)
  show ?case
  proof (cases "a = e")
    case True
    with Cons.prems(2) have "\<forall>x\<in>set es. facility x \<noteq> facility e"
      by (auto simp: image_iff)
    then have "foldl process_entry (process_entry tbl e) es (facility e)
               = process_entry tbl e (facility e)"
      by (rule foldl_process_entry_keep)
    also have "\<dots> = Some (f\<lparr>source_type := Some ''answerBox''\<rparr>)"
      using assms(3) best_match_answer_box[OF assms(4,5)] by (simp add: process_entry_def)
    finally show ?thesis using True by simp
  next
    case False
    with Cons.prems have "e \<in> set es" "distinct (map facility es)" by auto
    then have "foldl process_entry (process_entry tbl a) es (facility e)
               = Some (f\<lparr>source_type := Some ''answerBox''\<rparr>)"
      by (rule Cons.IH)
    then show ?thesis by simp
  qed
qed

lemma empty_extract: "extract_formats_from_text_improved '''' src = []"
  by code_simp

text \<open>
  C3. When the snippet of the answer box gives a non-empty extraction, the best match of
  that results object is the first candidate of the answer box with source type
  answerBox, whatever the organic results hold (an organic priority is at most 90); with
  one entry per facility that record is the facility's entry of the output table. A
  facility all of whose entries give empty extractions, from the answer box and from
  every organic result, is absent from the output table.
\<close>

theorem answer_box_priority:
  "(answerBox sr = Some box \<and>
    extract_formats_from_text_improved (snippet box) (link box) = f # fs \<longrightarrow>
      best_match_of sr = Some (f\<lparr>source_type := Some ''answerBox''\<rparr>)) \<and>
   organic_priority position lnk \<le> 90 \<and>
   (e \<in> set entries \<and> distinct (map facility entries) \<and> results e = Some sr \<and>
    answerBox sr = Some box \<and>
    extract_formats_from_text_improved (snippet box) (link box) = f # fs \<longrightarrow>
      extract_formats_from_serper_results entries (facility e)
        = Some (f\<lparr>source_type := Some ''answerBox''\<rparr>)) \<and>
   ((\<forall>e\<in>set entries. facility e = fac \<longrightarrow> no_extraction e) \<longrightarrow>
      extract_formats_from_serper_results entries fac = None)"
proof -
  have 1: "answerBox sr = Some box \<and>
    extract_formats_from_text_improved (snippet box) (link box) = f # fs \<longrightarrow>
      best_match_of sr = Some (f\<lparr>source_type := Some ''answerBox''\<rparr>)"
    using best_match_answer_box by blast
  have 3: "e \<in> set entries \<and> distinct (map facility entries) \<and> results e = Some sr \<and>
    answerBox sr = Some box \<and>
    extract_formats_from_text_improved (snippet box) (link box) = f # fs \<longrightarrow>
      extract_formats_from_serper_results entries (facility e)
        = Some (f\<lparr>source_type := Some ''answerBox''\<rparr>)"
    unfolding extract_formats_from_serper_results_def
    using foldl_process_entry_answer_box[of e entries sr box f fs Map.empty] by blast
  have 4: "(\<forall>e\<in>set entries. facility e = fac \<longrightarrow> no_extraction e) \<longrightarrow>
      extract_formats_from_serper_results entries fac = None"
    unfolding extract_formats_from_serper_results_def
    using foldl_process_entry_absent[of Map.empty fac entries] by simp
  from 1 organic_priority_bound 3 4 show ?thesis by (intro conjI)
qed

theorem answer_box_priority_witness:
  "extract_formats_from_serper_results demo_entries ''ACME HEALTH, SPRINGFIELD, IL''
     = Some \<lparr>format = ''[first_initial][last]'', domain = ''acme.com'',
              example = ''jdoe@acme.com'', source = ''https://rocketreach.co/acme'',
              confidence = ''high'', source_type = Some ''answerBox''\<rparr> \<and>
   best_match_of demo_results
     = Some \<lparr>format = ''[first_initial][last]'', domain = ''acme.com'',
              example = ''jdoe@acme.com'', source = ''https://rocketreach.co/acme'',
              confidence = ''high'', source_type = Some ''answerBox''\<rparr> \<and>
   extract_formats_from_serper_results demo_entries ''QUIET CLINIC, SPRINGFIELD, IL'' = None"
proof -
  let ?e = "\<lparr>facility = ''ACME HEALTH, SPRINGFIELD, IL'', results = Some demo_results\<rparr>"
  let ?f = "candidate_format ''[first_initial][last]'' ''acme.com'' ''jdoe@acme.com''
              ''https://rocketreach.co/acme'' ''high''"
  have mem: "?e \<in> set demo_entries" by (simp add: demo_entries_def)
  have dist: "distinct (map facility demo_entries)" by (simp add: demo_entries_def)
  have res: "results ?e = Some demo_results" by simp
  have box: "answerBox demo_results = Some demo_box" by (simp add: demo_results_def)
  have ex: "extract_formats_from_text_improved (snippet demo_box) (link demo_box) = ?f # []"
    by (simp add: demo_box_def ranked_extract)
  have quiet: "\<forall>e\<in>set demo_entries. facility e = ''QUIET CLINIC, SPRINGFIELD, IL'' \<longrightarrow>
                 no_extraction e"
    by (simp add: demo_entries_def no_extraction_def empty_extract)
  from answer_box_priority[of demo_results demo_box ?f "[]" 0 "''''" ?e demo_entries
      "''QUIET CLINIC, SPRINGFIELD, IL''"] mem dist res box ex quiet
  have "extract_formats_from_serper_results demo_entries (facility ?e)
          = Some (?f\<lparr>source_type := Some ''answerBox''\<rparr>) \<and>
        best_match_of demo_results = Some (?f\<lparr>source_type := Some ''answerBox''\<rparr>) \<and>
        extract_formats_from_serper_results demo_entries ''QUIET CLINIC, SPRINGFIELD, IL'' = None"
    by blast
  then show ?thesis by (simp add: candidate_format_def)
qed


end
